theory Spec2Isabelle
  imports Main "HOL-Library.Sublist" "HOL-Library.Multiset"
begin

section \<open>Configuration constants of server.js\<close>

definition MAX_URLS_PER_REQUEST :: nat where
  "MAX_URLS_PER_REQUEST = 50"

definition CONCURRENCY :: int where
  "CONCURRENCY = 2"

definition TEXT_MAX_CHARS :: nat where
  "TEXT_MAX_CHARS = 200000"

definition MIN_TEXT_FOR_OK :: nat where
  "MIN_TEXT_FOR_OK = 300"

section \<open>Strings\<close>

text \<open>
  A JavaScript string is a sequence of UTF-16 code units. The model covers the strings
  whose code units lie in 0..255 (ASCII and the Latin-1 supplement), one \<open>char\<close> per
  code unit, so \<open>length\<close> is JavaScript's \<open>.length\<close>. On that range
  \<open>String.prototype.toLowerCase\<close> maps A..Z and the letters U+00C0..U+00DE (U+00D7, the
  multiplication sign, apart) to the code unit 32 above, and leaves every other unit alone.
\<close>

definition lower_unit :: "char \<Rightarrow> char" where
  "lower_unit c =
     (let n = (of_char c :: nat)
      in if (65 \<le> n \<and> n \<le> 90) \<or> (192 \<le> n \<and> n \<le> 222 \<and> n \<noteq> 215)
         then char_of (n + 32) else c)"

definition toLowerCase :: "string \<Rightarrow> string" where
  "toLowerCase s = map lower_unit s"

text \<open>\<open>hay.startsWith(needle)\<close> and \<open>hay.includes(needle)\<close> (\<open>includes\<close> is reserved in Isabelle).\<close>

fun startsWith :: "string \<Rightarrow> string \<Rightarrow> bool" where
  "startsWith hay [] = True"
| "startsWith [] (n # ns) = False"
| "startsWith (h # hs) (n # ns) = (h = n \<and> startsWith hs ns)"

fun str_includes :: "string \<Rightarrow> string \<Rightarrow> bool" where
  "str_includes [] needle = (needle = [])"
| "str_includes (h # hs) needle = (startsWith (h # hs) needle \<or> str_includes hs needle)"

section \<open>Content-quality classifier\<close>

definition strong :: "string list" where
  "strong =
     [''attention required'',
      ''access denied'',
      ''cloudflare'',
      ''unusual traffic'',
      ''verify you are human'',
      ''bot detected'',
      ''press and hold'']"

definition generic :: "string list" where
  "generic = [''captcha'', ''hcaptcha'', ''recaptcha'', ''are you a robot'']"

text \<open>
  \<open>looksLikeCaptcha(text, title)\<close>. Both arguments are strings here, on which
  \<open>text || ""\<close> is the identity; \<open>strong.some(f)\<close> is \<open>list_ex f strong\<close>.
\<close>

definition looksLikeCaptcha :: "string \<Rightarrow> string \<Rightarrow> bool" where
  "looksLikeCaptcha text title =
     (let t = toLowerCase text;
          tt = toLowerCase title
      in if list_ex (\<lambda>n. str_includes tt n \<or> str_includes t n) strong then True
         else
           (let mentionsGeneric = list_ex (\<lambda>n. str_includes tt n \<or> str_includes t n) generic;
                tooShort = (length text < MIN_TEXT_FOR_OK)
            in mentionsGeneric \<and> tooShort))"

text \<open>
  The classifier as the specification words it: a phrase occurs in a field when the
  lower-cased field has it as a contiguous sublist.
\<close>

definition occurs_in :: "string \<Rightarrow> string \<Rightarrow> bool" where
  "occurs_in phrase field = sublist phrase (toLowerCase field)"

definition spec_blocked :: "string \<Rightarrow> string \<Rightarrow> bool" where
  "spec_blocked text title =
     ((\<exists>p \<in> {''attention required'', ''access denied'', ''cloudflare'', ''unusual traffic'',
              ''verify you are human'', ''bot detected'', ''press and hold''}.
          occurs_in p text \<or> occurs_in p title)
      \<or> ((\<exists>g \<in> {''captcha'', ''hcaptcha'', ''recaptcha'', ''are you a robot''}.
              occurs_in g text \<or> occurs_in g title)
          \<and> length text < 300))"

section \<open>JavaScript values, errors and promises\<close>

text \<open>
  A parsed JSON value. Numbers are the integer-valued ones, \<open>JNum i\<close> standing for
  the number whose value is \<open>i\<close>; an object keeps its members in source order.
\<close>

datatype json =
    JNull
  | JBool bool
  | JNum int
  | JStr string
  | JArr "json list"
  | JObj "(string \<times> json) list"

fun show_nat :: "nat \<Rightarrow> string" where
  "show_nat n =
     (if n < 10 then [char_of (48 + n)]
      else show_nat (n div 10) @ [char_of (48 + n mod 10)])"

declare show_nat.simps [simp del]

definition show_int :: "int \<Rightarrow> string" where
  "show_int i = (if i < 0 then CHR ''-'' # show_nat (nat (- i)) else show_nat (nat i))"

fun join_comma :: "string list \<Rightarrow> string" where
  "join_comma [] = []"
| "join_comma [s] = s"
| "join_comma (s # t # ss) = s @ '','' @ join_comma (t # ss)"

text \<open>
  A thrown value: an \<open>Error\<close> object with its \<open>name\<close> and \<open>message\<close>.
  \<open>err_text e\<close> is \<open>String(e?.message || e)\<close>: the message when it is not empty, else
  \<open>Error.prototype.toString\<close>, which for an empty message is the name.
\<close>

datatype js_error = JsError (err_name: string) (err_message: string)

definition err_text :: "js_error \<Rightarrow> string" where
  "err_text e = (if err_message e \<noteq> [] then err_message e else err_name e)"

text \<open>
  A promise, seen from the moment it is created: it fulfils or rejects after so many
  milliseconds. Every external call of the source carries a timeout of its own, so each
  of them settles at some time.
\<close>

datatype 'a promise =
    Fulfills nat 'a
  | Rejects nat js_error

text \<open>What \<open>await axios.post(...)\<close> / \<open>await axios.get(...)\<close> with
  \<open>validateStatus: () => true\<close> gives: a thrown transport error (the request's own
  timeout included) or a response with its status and body.\<close>

datatype 'd axios =
    AxiosThrows js_error
  | AxiosResponds nat 'd

section \<open>Regular expressions of the source\<close>

text \<open>
  Matching under the \<open>i\<close> flag compares canonicalised code units: a unit is replaced
  by its upper-case form when that is a single unit. On 0..255 this maps a..z and
  U+00E0..U+00FE (U+00F7 apart) to the unit 32 below; the upper-case forms of U+00B5 and
  U+00FF lie outside the range and equal no other unit's, so these two stay as they are.
\<close>

definition canon_unit :: "char \<Rightarrow> char" where
  "canon_unit c =
     (let n = (of_char c :: nat)
      in if (97 \<le> n \<and> n \<le> 122) \<or> (224 \<le> n \<and> n \<le> 254 \<and> n \<noteq> 247)
         then char_of (n - 32) else c)"

fun startsWith_ci :: "string \<Rightarrow> string \<Rightarrow> bool" where
  "startsWith_ci hay [] = True"
| "startsWith_ci [] (n # ns) = False"
| "startsWith_ci (h # hs) (n # ns) = (canon_unit h = canon_unit n \<and> startsWith_ci hs ns)"

text \<open>\<open>/a|b|c/i.test(s)\<close> for literal alternatives.\<close>

definition regex_test_ci :: "string list \<Rightarrow> string \<Rightarrow> bool" where
  "regex_test_ci alternatives s =
     list_ex (\<lambda>a. str_includes (map canon_unit s) (map canon_unit a)) alternatives"

text \<open>Index of the first case-insensitive occurrence of \<open>needle\<close>.\<close>

fun index_of_ci :: "string \<Rightarrow> string \<Rightarrow> nat option" where
  "index_of_ci needle [] = (if needle = [] then Some 0 else None)"
| "index_of_ci needle (h # hs) =
     (if startsWith_ci (h # hs) needle then Some 0
      else map_option Suc (index_of_ci needle hs))"

text \<open>
  \<open>s.replace(/re/g, rep)\<close>: \<open>matcher s\<close> is the length of the match of the expression
  at the start of \<open>s\<close>, if there is one. The scan emits \<open>rep\<close> for a match and resumes
  behind it; the first argument counts the units of the current match still to be skipped.
\<close>

fun replace_all :: "nat \<Rightarrow> (string \<Rightarrow> nat option) \<Rightarrow> string \<Rightarrow> string \<Rightarrow> string" where
  "replace_all skip matcher rep [] = []"
| "replace_all (Suc skip) matcher rep (c # cs) = replace_all skip matcher rep cs"
| "replace_all 0 matcher rep (c # cs) =
     (case matcher (c # cs) of
        Some (Suc k) \<Rightarrow> rep @ replace_all k matcher rep cs
      | _ \<Rightarrow> c # replace_all 0 matcher rep cs)"

text \<open>\<open>/<script[\s\S]*?<\/script>/i\<close> and the like: the opening literal, then lazily up
  to the first closing literal.\<close>

definition match_block :: "string \<Rightarrow> string \<Rightarrow> string \<Rightarrow> nat option" where
  "match_block opening closing s =
     (if startsWith_ci s opening
      then (case index_of_ci closing (drop (length opening) s) of
              Some i \<Rightarrow> Some (length opening + i + length closing)
            | None \<Rightarrow> None)
      else None)"

text \<open>\<open>/<[^>]+>/\<close>: the greedy class takes every unit up to the next \<open>>\<close>, which must
  exist, and at least one unit.\<close>

definition match_tag :: "string \<Rightarrow> nat option" where
  "match_tag s =
     (case s of
        [] \<Rightarrow> None
      | c # rest \<Rightarrow>
          (if c = CHR ''<''
           then (let body = takeWhile (\<lambda>x. x \<noteq> CHR ''>'') rest
                 in if body \<noteq> [] \<and> length body < length rest
                    then Some (length body + 2) else None)
           else None))"

text \<open>\<open>\s\<close> on 0..255: tab, line feed, vertical tab, form feed, carriage return, space
  and the no-break space; \<open>trim()\<close> strips the same units.\<close>

definition is_space :: "char \<Rightarrow> bool" where
  "is_space c = ((of_char c :: nat) \<in> set [9, 10, 11, 12, 13, 32, 160])"

definition match_spaces :: "string \<Rightarrow> nat option" where
  "match_spaces s = (let k = length (takeWhile is_space s) in if 0 < k then Some k else None)"

definition trim :: "string \<Rightarrow> string" where
  "trim s = rev (dropWhile is_space (rev (dropWhile is_space s)))"

definition htmlToText :: "string \<Rightarrow> string" where
  "htmlToText html =
     (if html = [] then []
      else
        (let s = replace_all 0 (match_block ''<script'' ''</script>'') '' '' html;
             s = replace_all 0 (match_block ''<style'' ''</style>'') '' '' s;
             s = replace_all 0 match_tag '' '' s
         in trim (replace_all 0 match_spaces '' '' s)))"

text \<open>\<open>html.match(/<title[^>]*>([\s\S]*?)<\/title>/i)\<close>: the capture group of the
  leftmost match, \<open>None\<close> for \<open>null\<close>.\<close>

fun match_title :: "string \<Rightarrow> string option" where
  "match_title [] = None"
| "match_title (c # cs) =
     (if startsWith_ci (c # cs) ''<title''
      then (case dropWhile (\<lambda>x. x \<noteq> CHR ''>'') (drop 6 (c # cs)) of
              [] \<Rightarrow> match_title cs
            | gt # body \<Rightarrow>
                (case index_of_ci ''</title>'' body of
                   Some i \<Rightarrow> Some (take i body)
                 | None \<Rightarrow> match_title cs))
      else match_title cs)"

section \<open>The environment of a pipeline run\<close>

text \<open>
  A parsed URL, as far as the source reads it: \<open>protocol\<close>, \<open>hostname\<close> and the
  serialisation \<open>toString()\<close>.
\<close>

record url =
  protocol :: string
  hostname :: string
  href :: string

text \<open>
  What a browser page does during one \<open>puppeteerFetch\<close>: whether getting the browser,
  opening the page and switching request interception on succeed; the outcome of
  \<open>page.goto\<close> (the response's status, \<open>None\<close> for no response); the title read after
  a failed navigation; the outcome of each attempt to read title and body text; whether
  \<open>page.close()\<close> succeeds; and the time at which the whole fetch settles.
\<close>

record page =
  open_page :: "js_error option"
  goto :: "js_error + nat option"
  nav_title :: "js_error + string"
  read_attempt :: "nat \<Rightarrow> js_error + string \<times> string"
  close_page :: "js_error option"
  settle_ms :: nat

text \<open>The body of a reputation-service response, typed as the service's contract has it;
  an absent member is \<open>None\<close>.\<close>

record apivoid_data =
  error :: "string option"
  a_records_found :: "bool option"
  parked_domain :: "bool option"

text \<open>
  Everything outside the pipeline: the platform's URL parser (\<open>new URL(s)\<close>, \<open>None\<close>
  when it throws), the platform's printing of a number that is not a safe integer, the
  two credentials read at start-up, the reputation service's answer
  for a host (\<open>None\<close> as body when it is not an object), the browser's behaviour for a
  URL, the proxy's answer for a URL with the time it takes (the body is \<open>None\<close> when it
  is not a string), and the wall-clock time a run takes.
\<close>

record env =
  url_parse :: "string \<Rightarrow> url option"
  number_string :: "int \<Rightarrow> string"
  APIVOID_KEY :: string
  SCRAPERAPI_KEY :: string
  apivoid_post :: "string \<Rightarrow> apivoid_data option axios"
  page_for :: "string \<Rightarrow> page"
  scraper_get :: "string \<Rightarrow> nat \<times> string option axios"
  elapsed :: "json \<Rightarrow> nat"

text \<open>The calls a run makes, in order.\<close>

datatype event =
    Net_apivoid string
  | Call_puppeteerFetch string
  | Log_fallback string
  | Call_scraperApiFetch string
  | Net_scraperapi string

section \<open>Conversion to a string\<close>

text \<open>The results of a list of conversions done in order: the first exception stops it.\<close>

fun all_or_first_error :: "(js_error + 'a) list \<Rightarrow> js_error + 'a list" where
  "all_or_first_error [] = Inr []"
| "all_or_first_error (Inl x # rs) = Inl x"
| "all_or_first_error (Inr v # rs) =
     (case all_or_first_error rs of Inl x \<Rightarrow> Inl x | Inr vs \<Rightarrow> Inr (v # vs))"

text \<open>
  \<open>ToString(v)\<close>, the conversion behind a template literal and behind \<open>new URL(v)\<close>;
  \<open>Inl\<close> is the exception it throws.
  \<^item> A safe integer (below \<open>2^53\<close> in absolute value) prints its decimal digits; the
    shortest-digits form of any other number is the platform's.
  \<^item> An array joins the conversions of its elements with commas, a \<open>null\<close> element
    counting as the empty string.
  \<^item> An object is converted by its \<open>toString\<close> method, else by \<open>valueOf\<close>. A parsed
    object with a member named \<open>toString\<close> has no callable \<open>toString\<close>, and
    \<open>valueOf\<close>, its own or the inherited one, gives no primitive: the conversion throws
    a \<open>TypeError\<close>. Without such a member the inherited method answers
    \<open>[object Object]\<close>.
\<close>

fun js_string :: "env \<Rightarrow> json \<Rightarrow> js_error + string" where
  "js_string e JNull = Inr ''null''"
| "js_string e (JBool b) = Inr (if b then ''true'' else ''false'')"
| "js_string e (JNum i) =
     Inr (if \<bar>i\<bar> < 9007199254740992 then show_int i else number_string e i)"
| "js_string e (JStr s) = Inr s"
| "js_string e (JArr vs) =
     (case all_or_first_error (map (\<lambda>v. if v = JNull then Inr [] else js_string e v) vs) of
        Inl x \<Rightarrow> Inl x
      | Inr ss \<Rightarrow> Inr (join_comma ss))"
| "js_string e (JObj kvs) =
     (if ''toString'' \<in> set (map fst kvs)
      then Inl (JsError ''TypeError'' ''Cannot convert object to primitive value'')
      else Inr ''[object Object]'')"

section \<open>URL normaliser\<close>

text \<open>In \<open>normalizeUrl\<close> the whole of \<open>new URL(u)\<close>, the conversion of \<open>u\<close> to a string
  included, stands inside \<open>try\<close>.\<close>

definition normalizeUrl :: "env \<Rightarrow> json \<Rightarrow> string option" where
  "normalizeUrl e u =
     (case js_string e u of
        Inl x \<Rightarrow> None
      | Inr s \<Rightarrow>
          (case url_parse e s of
             None \<Rightarrow> None
           | Some parsed \<Rightarrow>
               (if protocol parsed \<notin> set [''http:'', ''https:''] then None
                else Some (href parsed))))"

definition hostOnly :: "env \<Rightarrow> string \<Rightarrow> string option" where
  "hostOnly e u =
     (case url_parse e u of
        Some parsed \<Rightarrow> Some (hostname parsed)
      | None \<Rightarrow>
          (case url_parse e (''http://'' @ u) of
             Some parsed \<Rightarrow> Some (hostname parsed)
           | None \<Rightarrow> None))"

section \<open>Domain reputation checker\<close>

datatype apivoid_result =
    ApiOk
  | ApiFail string string

text \<open>\<open>x || d\<close> for an optional string: \<open>undefined\<close> and the empty string are falsy.\<close>

definition or_else :: "string option \<Rightarrow> string \<Rightarrow> string" where
  "or_else x d = (case x of None \<Rightarrow> d | Some s \<Rightarrow> if s = [] then d else s)"

definition truthy_str :: "string option \<Rightarrow> bool" where
  "truthy_str x = (case x of None \<Rightarrow> False | Some s \<Rightarrow> s \<noteq> [])"

text \<open>\<open>!!data?.field\<close> for an optional boolean member of an optional body.\<close>

definition flag :: "apivoid_data option \<Rightarrow> (apivoid_data \<Rightarrow> bool option) \<Rightarrow> bool" where
  "flag d field = (case d of None \<Rightarrow> False | Some r \<Rightarrow> (field r = Some True))"

definition apivoidCheck :: "env \<Rightarrow> string option \<Rightarrow> apivoid_result \<times> event list" where
  "apivoidCheck e host =
     (if APIVOID_KEY e = [] then
        (ApiFail ''apivoid_api_key'' ''APIVoid API key is missing.'', [])
      else
        (case host of
           None \<Rightarrow> (ApiFail ''wrong_format'' ''Host could not be derived from the URL.'', [])
         | Some h \<Rightarrow>
             if h = [] then
               (ApiFail ''wrong_format'' ''Host could not be derived from the URL.'', [])
             else
               (case apivoid_post e h of
                  AxiosResponds status d \<Rightarrow>
                    (let err = (case d of None \<Rightarrow> None | Some r \<Rightarrow> error r)
                     in if status \<ge> 400 \<or> truthy_str err then
                          (let msg = or_else err (''APIVoid HTTP '' @ show_nat status)
                           in if regex_test_ci [''domain name is not valid''] msg then
                                (ApiFail ''wrong_format''
                                   (''The input url domain is not valid for APIVoid ('' @ msg @ '').''),
                                 [Net_apivoid h])
                              else if regex_test_ci
                                        [''insufficient'', ''credit'', ''api key'',
                                         ''unauthorized'', ''forbidden''] msg then
                                (ApiFail ''apivoid_api_key'' msg, [Net_apivoid h])
                              else
                                (ApiFail ''apivoid_api_key'' msg, [Net_apivoid h]))
                        else
                          (let aRecords = flag d a_records_found;
                               parked = flag d parked_domain
                           in if \<not> aRecords then
                                (ApiFail ''a_records_not_found''
                                   ''The domain appeared to be offline on the Apivoid check.'',
                                 [Net_apivoid h])
                              else if parked then
                                (ApiFail ''parked_domain''
                                   ''The domain appeared to be a parked domain on the Apivoid check.'',
                                 [Net_apivoid h])
                              else (ApiOk, [Net_apivoid h])))
                | AxiosThrows x \<Rightarrow>
                    (ApiFail ''apivoid_api_key'' (''APIVoid request failed: '' @ err_text x),
                     [Net_apivoid h]))))"

section \<open>Fetchers\<close>

text \<open>The object both fetchers return; \<open>reason\<close> and \<open>text\<close> are absent on success
  (\<open>text\<close> is reserved in Isabelle, hence the prime).\<close>

record fetch_result =
  ok :: bool
  reason :: "string option"
  text' :: "string option"
  httpStatus :: "nat option"
  title :: string
  content :: string

definition scraperApiFetch :: "env \<Rightarrow> string \<Rightarrow> fetch_result promise \<times> event list" where
  "scraperApiFetch e u =
     (if SCRAPERAPI_KEY e = [] then
        (Fulfills 0
           \<lparr>ok = False, reason = Some ''scraperapi'', text' = Some ''ScraperAPI key is missing.'',
            httpStatus = None, title = [], content = []\<rparr>,
         [])
      else
        (case scraper_get e u of
           (t, AxiosResponds status d) \<Rightarrow>
             (let html = (case d of Some s \<Rightarrow> s | None \<Rightarrow> []);
                  text = take TEXT_MAX_CHARS (htmlToText html);
                  m = match_title html;
                  ttl = (case m of Some g \<Rightarrow> take 300 (htmlToText g) | None \<Rightarrow> [])
              in if status \<ge> 400 then
                   (Fulfills t
                      \<lparr>ok = False, reason = Some ''scraperapi'',
                       text' = Some (''ScraperAPI HTTP '' @ show_nat status),
                       httpStatus = Some status, title = ttl, content = []\<rparr>,
                    [Net_scraperapi u])
                 else
                   (Fulfills t
                      \<lparr>ok = True, reason = None, text' = None,
                       httpStatus = Some status, title = ttl, content = text\<rparr>,
                    [Net_scraperapi u]))
         | (t, AxiosThrows x) \<Rightarrow>
             (Fulfills t
                \<lparr>ok = False, reason = Some ''scraperapi'',
                 text' = Some (''ScraperAPI request failed: '' @ err_text x),
                 httpStatus = None, title = [], content = []\<rparr>,
              [Net_scraperapi u])))"

text \<open>\<open>withPage(fn)\<close>: the page is closed on the way out, and a failing close replaces
  whatever \<open>fn\<close> returned or threw.\<close>

definition withPage :: "page \<Rightarrow> (page \<Rightarrow> js_error + 'a) \<Rightarrow> js_error + 'a" where
  "withPage pg fn =
     (case open_page pg of
        Some x \<Rightarrow> Inl x
      | None \<Rightarrow>
          (let r = fn pg
           in case close_page pg of Some x \<Rightarrow> Inl x | None \<Rightarrow> r))"

text \<open>
  \<open>getTitleAndTextWithRetries\<close>: the loop \<open>for (i = 0; i < attempts; i++)\<close>, by
  recursion on the attempts left; \<open>i\<close> is the attempt's number.
\<close>

fun getTitleAndTextWithRetries ::
  "page \<Rightarrow> nat \<Rightarrow> nat \<Rightarrow> js_error option \<Rightarrow> js_error + string \<times> string" where
  "getTitleAndTextWithRetries pg i 0 lastErr =
     (case lastErr of
        Some x \<Rightarrow> Inl x
      | None \<Rightarrow> Inl (JsError ''Error'' ''execution_context_retries_exhausted''))"
| "getTitleAndTextWithRetries pg i (Suc left) lastErr =
     (case read_attempt pg i of
        Inr r \<Rightarrow> Inr r
      | Inl x \<Rightarrow>
          (let msg = err_text x;
               transient =
                 regex_test_ci [''Execution context was destroyed'',
                                ''Cannot find context with specified id''] msg
           in if \<not> transient then Inl x
              else getTitleAndTextWithRetries pg (Suc i) left (Some x)))"

definition puppeteerFetch :: "env \<Rightarrow> string \<Rightarrow> fetch_result promise" where
  "puppeteerFetch e u =
     (let pg = page_for e u;
          r = withPage pg (\<lambda>pg.
                (case goto pg of
                   Inl x \<Rightarrow> Inl x
                 | Inr st \<Rightarrow>
                     (if (case st of None \<Rightarrow> True | Some n \<Rightarrow> n = 0 \<or> n \<ge> 400) then
                        (let ttl = (case nav_title pg of Inl x \<Rightarrow> [] | Inr s \<Rightarrow> s)
                         in Inr \<lparr>ok = False, reason = Some ''offline_on_puppeteer'',
                                 text' = Some (''HTTP '' @
                                   (case st of None \<Rightarrow> ''no_response'' | Some n \<Rightarrow> show_nat n)),
                                 httpStatus = st, title = ttl, content = []\<rparr>)
                      else
                        (case getTitleAndTextWithRetries pg 0 2 None of
                           Inl x \<Rightarrow> Inl x
                         | Inr (ttl, txt) \<Rightarrow>
                             Inr \<lparr>ok = True, reason = None, text' = None, httpStatus = st,
                                  title = ttl, content = take TEXT_MAX_CHARS txt\<rparr>))))
      in case r of
           Inl x \<Rightarrow> Rejects (settle_ms pg) x
         | Inr v \<Rightarrow> Fulfills (settle_ms pg) v)"

section \<open>Per-URL pipeline\<close>

definition PER_URL_TIMEOUT_MS :: nat where
  "PER_URL_TIMEOUT_MS = 60000"

text \<open>
  \<open>hardCap(p)\<close> races \<open>p\<close> against a timer that rejects with \<open>Error("timeout")\<close> after
  \<open>PER_URL_TIMEOUT_MS\<close>; awaiting it gives \<open>Inr\<close> of the value or throws (\<open>Inl\<close>).
\<close>

definition hardCap :: "'a promise \<Rightarrow> js_error + 'a" where
  "hardCap p =
     (case p of
        Fulfills t v \<Rightarrow>
          if t < PER_URL_TIMEOUT_MS then Inr v else Inl (JsError ''Error'' ''timeout'')
      | Rejects t x \<Rightarrow>
          if t < PER_URL_TIMEOUT_MS then Inl x else Inl (JsError ''Error'' ''timeout''))"

record task_result =
  status :: string
  url_input :: json
  failure_reason :: string
  failure_text :: string
  scraped_text :: string
  ms :: nat

text \<open>
  \<open>processOne(inputUrl, reqId)\<close>. The result is \<open>Inr\<close> of the returned object, or
  \<open>Inl\<close> of an exception that leaves the function; with it comes the list of calls made.
  The template literal of the first failure text converts \<open>inputUrl\<close> to a string
  outside any \<open>try\<close>.
\<close>

definition processOne :: "env \<Rightarrow> json \<Rightarrow> (js_error + task_result) \<times> event list" where
  "processOne e inputUrl =
     (case normalizeUrl e inputUrl of
        None \<Rightarrow>
          (case js_string e inputUrl of
             Inl x \<Rightarrow> (Inl x, [])
           | Inr s \<Rightarrow>
               (Inr \<lparr>status = ''failure'', url_input = inputUrl, failure_reason = ''wrong_format'',
                     failure_text = ''The input url `'' @ s @ ''` is not properly formatted.'',
                     scraped_text = [], ms = elapsed e inputUrl\<rparr>,
                []))
      | Some u \<Rightarrow>
          (let host = hostOnly e u;
               (apiRes, ev1) = apivoidCheck e host
           in case apiRes of
                ApiFail rsn txt \<Rightarrow>
                  (Inr \<lparr>status = ''failure'', url_input = inputUrl, failure_reason = rsn,
                        failure_text = txt, scraped_text = [], ms = elapsed e inputUrl\<rparr>,
                   ev1)
              | ApiOk \<Rightarrow>
                  (let pptr =
                         (case hardCap (puppeteerFetch e u) of
                            Inr r \<Rightarrow> r
                          | Inl x \<Rightarrow>
                              \<lparr>ok = False, reason = Some ''offline_on_puppeteer'',
                               text' = Some (err_text x), httpStatus = None,
                               title = [], content = []\<rparr>);
                       ev2 = ev1 @ [Call_puppeteerFetch u]
                   in if \<not> ok pptr then
                        (Inr \<lparr>status = ''failure'', url_input = inputUrl,
                              failure_reason = ''offline_on_puppeteer'',
                              failure_text = or_else (text' pptr) ''The webpage did not load.'',
                              scraped_text = [], ms = elapsed e inputUrl\<rparr>,
                         ev2)
                      else
                        (let isCaptchaOrShort = looksLikeCaptcha (content pptr) (title pptr)
                         in if \<not> isCaptchaOrShort then
                              (Inr \<lparr>status = ''success'', url_input = inputUrl,
                                    failure_reason = [], failure_text = [],
                                    scraped_text = content pptr, ms = elapsed e inputUrl\<rparr>,
                               ev2)
                            else
                              (let (p, ev3) = scraperApiFetch e u;
                                   ev4 = ev2 @ [Log_fallback u, Call_scraperApiFetch u] @ ev3
                               in case hardCap p of
                                    Inl x \<Rightarrow> (Inl x, ev4)
                                  | Inr viaProxy \<Rightarrow>
                                      if \<not> ok viaProxy then
                                        (Inr \<lparr>status = ''failure'', url_input = inputUrl,
                                              failure_reason = or_else (reason viaProxy) ''scraperapi'',
                                              failure_text = or_else (text' viaProxy) ''ScraperAPI failed.'',
                                              scraped_text = [], ms = elapsed e inputUrl\<rparr>,
                                         ev4)
                                      else
                                        (let proxyBad =
                                               looksLikeCaptcha (content viaProxy) (title viaProxy)
                                         in if proxyBad then
                                              (Inr \<lparr>status = ''failure'', url_input = inputUrl,
                                                    failure_reason = ''scraperapi'',
                                                    failure_text = ''ScraperAPI returned CAPTCHA/short content.'',
                                                    scraped_text = [], ms = elapsed e inputUrl\<rparr>,
                                               ev4)
                                            else
                                              (Inr \<lparr>status = ''success'', url_input = inputUrl,
                                                    failure_reason = [], failure_text = [],
                                                    scraped_text = content viaProxy,
                                                    ms = elapsed e inputUrl\<rparr>,
                                               ev4)))))))"

section \<open>Concurrency limiter\<close>

text \<open>
  \<open>limiter(limit)\<close> keeps a counter \<open>active\<close> and a queue \<open>q\<close> of waiting \<open>run\<close>
  closures; a closure is named by the index of its task. JavaScript runs each of the
  three pieces below (the promise executor, \<open>run\<close> up to its \<open>await\<close>, and the
  \<open>finally\<close> block) without interruption, so each is one step on the limiter's state.
  Two more fields record, for the proofs, which tasks are between \<open>active++\<close> and
  \<open>next()\<close>, and the order of what happened.
\<close>

datatype sched_event =
    Submitted nat
  | Started nat
  | Finished nat

record limiter =
  active :: int
  q :: "nat list"
  running :: "nat list"
  history :: "sched_event list"

definition new_limiter :: limiter where
  "new_limiter = \<lparr>active = 0, q = [], running = [], history = []\<rparr>"

text \<open>\<open>run\<close>, up to the call of \<open>fn\<close>: \<open>active++\<close> and the task begins.\<close>

definition run :: "nat \<Rightarrow> limiter \<Rightarrow> limiter" where
  "run i s =
     s\<lparr>active := active s + 1, running := running s @ [i], history := history s @ [Started i]\<rparr>"

text \<open>\<open>next\<close>: \<open>active--; q.shift()?.()\<close>.\<close>

definition next_run :: "limiter \<Rightarrow> limiter" where
  "next_run s =
     (let s1 = s\<lparr>active := active s - 1\<rparr>
      in case q s1 of
           [] \<Rightarrow> s1
         | r # rest \<Rightarrow> run r (s1\<lparr>q := rest\<rparr>))"

text \<open>The promise executor: \<open>active < limit ? run() : q.push(run)\<close>.\<close>

definition submit :: "int \<Rightarrow> nat \<Rightarrow> limiter \<Rightarrow> limiter" where
  "submit limit i s =
     (let s1 = s\<lparr>history := history s @ [Submitted i]\<rparr>
      in if active s1 < limit then run i s1 else s1\<lparr>q := q s1 @ [i]\<rparr>)"

text \<open>The task's promise settles, fulfilled or rejected: \<open>res\<close> or \<open>rej\<close>, then
  \<open>finally { next() }\<close>.\<close>

definition settle :: "nat \<Rightarrow> limiter \<Rightarrow> limiter" where
  "settle i s =
     next_run (s\<lparr>running := remove1 i (running s), history := history s @ [Finished i]\<rparr>)"

text \<open>Every state the limiter can be in: new tasks are submitted and running tasks settle,
  in any interleaving.\<close>

inductive reachable :: "int \<Rightarrow> limiter \<Rightarrow> bool" for limit :: int where
  reach_new: "reachable limit new_limiter"
| reach_submit:
    "reachable limit s \<Longrightarrow> Submitted i \<notin> set (history s) \<Longrightarrow> reachable limit (submit limit i s)"
| reach_settle:
    "reachable limit s \<Longrightarrow> i \<in> set (running s) \<Longrightarrow> reachable limit (settle i s)"

fun submitted_of :: "sched_event list \<Rightarrow> nat list" where
  "submitted_of [] = []"
| "submitted_of (Submitted i # es) = i # submitted_of es"
| "submitted_of (ev # es) = submitted_of es"

fun started_of :: "sched_event list \<Rightarrow> nat list" where
  "started_of [] = []"
| "started_of (Started i # es) = i # started_of es"
| "started_of (ev # es) = started_of es"

fun finished_of :: "sched_event list \<Rightarrow> nat list" where
  "finished_of [] = []"
| "finished_of (Finished i # es) = i # finished_of es"
| "finished_of (ev # es) = finished_of es"

text \<open>The invariant of the limiter, for a limit that is not negative.\<close>

definition limiter_inv :: "int \<Rightarrow> limiter \<Rightarrow> bool" where
  "limiter_inv limit s =
     (active s = int (length (running s))
      \<and> int (length (running s)) \<le> limit
      \<and> (q s \<noteq> [] \<longrightarrow> int (length (running s)) = limit)
      \<and> started_of (history s) @ q s = submitted_of (history s)
      \<and> distinct (submitted_of (history s))
      \<and> mset (running s) + mset (finished_of (history s)) = mset (started_of (history s)))"

section \<open>Batch scheduler\<close>

text \<open>\<open>Array.isArray(req.body?.urls) ? req.body.urls : null\<close>; the body is \<open>None\<close> when
  there is none. A parsed object holds, for a repeated key, the last value.\<close>

definition urls_of :: "json option \<Rightarrow> json list option" where
  "urls_of body =
     (case body of
        Some (JObj kvs) \<Rightarrow>
          (case map_of (rev kvs) ''urls'' of
             Some (JArr vs) \<Rightarrow> Some vs
           | _ \<Rightarrow> None)
      | _ \<Rightarrow> None)"

text \<open>
  \<open>[...new Set(list)]\<close>. A \<open>Set\<close> compares with SameValueZero: primitives by value,
  objects by identity, and every array or object of a parsed body is an object of its own.
\<close>

fun same_value_zero :: "json \<Rightarrow> json \<Rightarrow> bool" where
  "same_value_zero JNull JNull = True"
| "same_value_zero (JBool a) (JBool b) = (a = b)"
| "same_value_zero (JNum a) (JNum b) = (a = b)"
| "same_value_zero (JStr a) (JStr b) = (a = b)"
| "same_value_zero v w = False"

definition set_add :: "json list \<Rightarrow> json \<Rightarrow> json list" where
  "set_add seen v = (if list_ex (same_value_zero v) seen then seen else seen @ [v])"

definition js_unique :: "json list \<Rightarrow> json list" where
  "js_unique vs = foldl set_add [] vs"

text \<open>\<open>unique.map((u) => run(...))\<close> submits the tasks \<open>0 .. n-1\<close> in order, before any of
  them can settle.\<close>

definition submit_all :: "nat \<Rightarrow> limiter" where
  "submit_all n = foldl (\<lambda>s i. submit CONCURRENCY i s) new_limiter [0..<n]"

text \<open>
  Then the running tasks settle one at a time, in an order the outside world decides:
  each number of the schedule picks, among the tasks running at that moment, the one
  that settles next.
\<close>

fun drain :: "nat list \<Rightarrow> limiter \<Rightarrow> limiter" where
  "drain [] s = s"
| "drain (c # cs) s =
     (if running s = [] then s
      else drain cs (settle (running s ! (c mod length (running s))) s))"

text \<open>The states the limiter goes through while the tasks settle.\<close>

fun drain_states :: "nat list \<Rightarrow> limiter \<Rightarrow> limiter list" where
  "drain_states [] s = [s]"
| "drain_states (c # cs) s =
     (if running s = [] then [s]
      else s # drain_states cs (settle (running s ! (c mod length (running s))) s))"

text \<open>
  \<open>Promise.all\<close> over the tasks' promises, given what each task's promise settles with
  and the order in which they have settled so far: it rejects with the first rejection,
  and fulfils, once every task has fulfilled, with the values in the order of the tasks.
  The projections \<open>projl\<close> and \<open>projr\<close> are taken only where the test before
  them has fixed the constructor.
\<close>

datatype 'a all_outcome =
    AllFulfilled "'a list"
  | AllRejected js_error
  | AllPending

definition promise_all :: "(nat \<Rightarrow> js_error + 'a) \<Rightarrow> nat \<Rightarrow> nat list \<Rightarrow> 'a all_outcome" where
  "promise_all outcome n settled =
     (case find (\<lambda>i. isl (outcome i)) settled of
        Some i \<Rightarrow> AllRejected (projl (outcome i))
      | None \<Rightarrow>
          if list_all (\<lambda>i. i \<in> set settled) [0..<n]
          then AllFulfilled (map (\<lambda>i. projr (outcome i)) [0..<n])
          else AllPending)"

text \<open>
  The handler of \<open>POST /batch-scrape\<close>: what it answers (the random request id left
  out), and the inputs whose pipeline was started, in starting order. An exception of the
  awaited \<open>Promise.all\<close> leaves the handler, which then sends nothing.
\<close>

datatype response =
    Status400 string
  | Json200 "task_result list"
  | HandlerRejects js_error
  | NoResponse

definition batch_scrape :: "env \<Rightarrow> json option \<Rightarrow> nat list \<Rightarrow> response \<times> json list" where
  "batch_scrape e body schedule =
     (case urls_of body of
        None \<Rightarrow> (Status400 ''Body must be { urls: string[] }'', [])
      | Some list \<Rightarrow>
          (let unique = js_unique list
           in if length unique > MAX_URLS_PER_REQUEST then
                (Status400 (''Too many URLs; max '' @ show_nat MAX_URLS_PER_REQUEST @ ''.''), [])
              else
                (let s = drain schedule (submit_all (length unique));
                     results = promise_all (\<lambda>i. fst (processOne e (unique ! i)))
                                 (length unique) (finished_of (history s))
                 in ((case results of
                        AllFulfilled rs \<Rightarrow> Json200 rs
                      | AllRejected x \<Rightarrow> HandlerRejects x
                      | AllPending \<Rightarrow> NoResponse),
                     map (\<lambda>i. unique ! i) (started_of (history s))))))"

text \<open>Deduplication as the specification words it: each value once, at the place of its
  first occurrence.\<close>

fun first_occurrences :: "'a list \<Rightarrow> 'a list" where
  "first_occurrences [] = []"
| "first_occurrences (x # xs) = x # first_occurrences (filter (\<lambda>y. y \<noteq> x) xs)"

section \<open>Sample environments\<close>

text \<open>
  Concrete collaborators for the examples. \<open>sample_parse\<close> stands in for the platform's URL
  parser on the inputs used below: like it, it rejects a string without a scheme, and
  splits \<open>scheme://host/path\<close>. No example prints a number that is not a safe integer.
\<close>

definition sample_split :: "string \<Rightarrow> string \<Rightarrow> url option" where
  "sample_split proto rest =
     (let h = takeWhile (\<lambda>c. c \<noteq> CHR ''/'') rest;
          path = dropWhile (\<lambda>c. c \<noteq> CHR ''/'') rest
      in if h = [] then None
         else Some \<lparr>protocol = proto, hostname = h,
                    href = proto @ ''//'' @ h @ (if path = [] then ''/'' else path)\<rparr>)"

definition sample_parse :: "string \<Rightarrow> url option" where
  "sample_parse s =
     (if startsWith s ''https://'' then sample_split ''https:'' (drop 8 s)
      else if startsWith s ''http://'' then sample_split ''http:'' (drop 7 s)
      else if startsWith s ''ftp://'' then sample_split ''ftp:'' (drop 6 s)
      else None)"

definition sample_page :: "string \<Rightarrow> string \<Rightarrow> page" where
  "sample_page ttl txt =
     \<lparr>open_page = None, goto = Inr (Some 200), nav_title = Inr ttl,
      read_attempt = (\<lambda>i. Inr (ttl, txt)), close_page = None, settle_ms = 1500\<rparr>"

text \<open>A live, unparked domain whose page reads \<open>Example Domain\<close>; both credentials set.\<close>

definition sample_env :: env where
  "sample_env =
     \<lparr>url_parse = sample_parse,
      number_string = show_int,
      APIVOID_KEY = ''k1'',
      SCRAPERAPI_KEY = ''k2'',
      apivoid_post = (\<lambda>h. AxiosResponds 200
         (Some \<lparr>error = None, a_records_found = Some True, parked_domain = Some False\<rparr>)),
      page_for = (\<lambda>u. sample_page ''Example'' ''Example Domain''),
      scraper_get = (\<lambda>u. (2000, AxiosResponds 200
         (Some ''<title>Hi</title><p>Example Domain</p>''))),
      elapsed = (\<lambda>u. 1600)\<rparr>"

text \<open>The same with the reputation credential missing.\<close>

definition no_key_env :: env where
  "no_key_env = sample_env\<lparr>APIVOID_KEY := []\<rparr>"

text \<open>A domain the service reports both without A records and parked.\<close>

definition offline_parked_env :: env where
  "offline_parked_env =
     sample_env\<lparr>apivoid_post := (\<lambda>h. AxiosResponds 200
        (Some \<lparr>error = None, a_records_found = Some False, parked_domain = Some True\<rparr>))\<rparr>"

text \<open>Other answers of the reputation service: live and parked; an error text about the
  domain; no answer at all; and a bare status 401.\<close>

definition parked_env :: env where
  "parked_env =
     sample_env\<lparr>apivoid_post := (\<lambda>h. AxiosResponds 200
        (Some \<lparr>error = None, a_records_found = Some True, parked_domain = Some True\<rparr>))\<rparr>"

definition invalid_domain_env :: env where
  "invalid_domain_env =
     sample_env\<lparr>apivoid_post := (\<lambda>h. AxiosResponds 200
        (Some \<lparr>error = Some ''Domain name is NOT valid'', a_records_found = None,
               parked_domain = None\<rparr>))\<rparr>"

definition unreachable_env :: env where
  "unreachable_env =
     sample_env\<lparr>apivoid_post := (\<lambda>h. AxiosThrows (JsError ''Error'' ''timeout of 12000ms exceeded''))\<rparr>"

definition unauthorized_env :: env where
  "unauthorized_env = sample_env\<lparr>apivoid_post := (\<lambda>h. AxiosResponds 401 None)\<rparr>"

text \<open>The browser gets a short CAPTCHA page; the proxy gets the real page.\<close>

definition captcha_env :: env where
  "captcha_env =
     sample_env\<lparr>page_for := (\<lambda>u. sample_page ''Just a moment'' ''Please complete the CAPTCHA'')\<rparr>"

text \<open>The same, but the proxy's answer is complete only 75 seconds after the request.\<close>

definition slow_proxy_env :: env where
  "slow_proxy_env =
     captcha_env\<lparr>scraper_get := (\<lambda>u. (75000, AxiosResponds 200
        (Some ''<title>Hi</title><p>Example Domain</p>'')))\<rparr>"

text \<open>A page that loads with status 200 and an empty body.\<close>

definition empty_page_env :: env where
  "empty_page_env = sample_env\<lparr>page_for := (\<lambda>u. sample_page ''Home'' [])\<rparr>"

text \<open>Request bodies for the examples: a URL given three times around a malformed one;
  an array holding a number; a malformed input beside a URL whose fallback is slow; and 51
  different URLs.\<close>

definition repeated_body :: "json option" where
  "repeated_body =
     Some (JObj [(''urls'', JArr [JStr ''http://example.com'', JStr ''foobar'',
                                  JStr ''http://example.com'', JStr ''http://example.com''])])"


definition timeout_body :: "json option" where
  "timeout_body = Some (JObj [(''urls'', JArr [JStr ''foobar'', JStr ''http://example.com''])])"


section \<open>The reputation checker's outcome\<close>

definition fail_reason :: "apivoid_result \<Rightarrow> string option" where
  "fail_reason r = (case r of ApiOk \<Rightarrow> None | ApiFail rsn msg \<Rightarrow> Some rsn)"

section \<open>Properties of the classifier\<close>

lemma startsWith_prefix: "startsWith hay needle = prefix needle hay"
  by (induction hay needle rule: startsWith.induct) auto

lemma includes_sublist: "str_includes hay needle = sublist needle hay"
proof (induction hay)
  case Nil
  show ?case by simp
next
  case (Cons h hs)
  show ?case
  proof (cases needle)
    case Nil
    then show ?thesis by simp
  next
    case (Cons n ns)
    with Cons.IH show ?thesis
      by (simp add: startsWith_prefix sublist_Cons_right)
  qed
qed

lemma char_of_eq_small:
  "n < 256 \<Longrightarrow> m < 256 \<Longrightarrow> (char_of n :: char) = char_of m \<longleftrightarrow> (n::nat) = m"
  by (simp add: char_of_eq_iff take_bit_nat_eq_self)

text \<open>Lower-casing factors through canonicalisation: it lifts a canonical letter by 32.\<close>

lemma lower_of_canon:
  fixes n :: nat
  defines "cn \<equiv> (if (97 \<le> n \<and> n \<le> 122) \<or> (224 \<le> n \<and> n \<le> 254 \<and> n \<noteq> 247) then n - 32 else n)"
  shows "(if (65 \<le> n \<and> n \<le> 90) \<or> (192 \<le> n \<and> n \<le> 222 \<and> n \<noteq> 215) then n + 32 else n)
       = (if (65 \<le> cn \<and> cn \<le> 90) \<or> (192 \<le> cn \<and> cn \<le> 222 \<and> cn \<noteq> 215) then cn + 32 else cn)
       \<and> \<not> (97 \<le> cn \<and> cn \<le> 122) \<and> \<not> (224 \<le> cn \<and> cn \<le> 254 \<and> cn \<noteq> 247)"
  unfolding cn_def by presburger

lemma lift_inj:
  fixes x y :: nat
  assumes "\<not> (97 \<le> x \<and> x \<le> 122)" "\<not> (224 \<le> x \<and> x \<le> 254 \<and> x \<noteq> 247)"
      and "\<not> (97 \<le> y \<and> y \<le> 122)" "\<not> (224 \<le> y \<and> y \<le> 254 \<and> y \<noteq> 247)"
      and "x < 256" "y < 256"
  shows "((if (65 \<le> x \<and> x \<le> 90) \<or> (192 \<le> x \<and> x \<le> 222 \<and> x \<noteq> 215) then x + 32 else x)
        = (if (65 \<le> y \<and> y \<le> 90) \<or> (192 \<le> y \<and> y \<le> 222 \<and> y \<noteq> 215) then y + 32 else y))
       \<longleftrightarrow> x = y"
  using assms by presburger


lemma same_letter: "canon_unit a = canon_unit b \<longleftrightarrow> lower_unit a = lower_unit b"
proof -
  define n where "n = (of_char a :: nat)"
  define m where "m = (of_char b :: nat)"
  define cn where "cn = (if (97 \<le> n \<and> n \<le> 122) \<or> (224 \<le> n \<and> n \<le> 254 \<and> n \<noteq> 247) then n - 32 else n)"
  define cm where "cm = (if (97 \<le> m \<and> m \<le> 122) \<or> (224 \<le> m \<and> m \<le> 254 \<and> m \<noteq> 247) then m - 32 else m)"
  define lift where "lift = (\<lambda>k::nat. if (65 \<le> k \<and> k \<le> 90) \<or> (192 \<le> k \<and> k \<le> 222 \<and> k \<noteq> 215) then k + 32 else k)"
  have n: "n < 256" and m: "m < 256" by (simp_all add: n_def m_def)
  have c1: "canon_unit a = char_of cn"
    by (simp add: canon_unit_def n_def cn_def Let_def)
  have c2: "canon_unit b = char_of cm"
    by (simp add: canon_unit_def m_def cm_def Let_def)
  have l1: "lower_unit a = char_of (lift n)"
    by (simp add: lower_unit_def n_def lift_def Let_def)
  have l2: "lower_unit b = char_of (lift m)"
    by (simp add: lower_unit_def m_def lift_def Let_def)
  from lower_of_canon [of n] have f1: "lift n = lift cn"
    and r1: "\<not> (97 \<le> cn \<and> cn \<le> 122)" "\<not> (224 \<le> cn \<and> cn \<le> 254 \<and> cn \<noteq> 247)"
    by (simp_all add: lift_def cn_def)
  from lower_of_canon [of m] have f2: "lift m = lift cm"
    and r2: "\<not> (97 \<le> cm \<and> cm \<le> 122)" "\<not> (224 \<le> cm \<and> cm \<le> 254 \<and> cm \<noteq> 247)"
    by (simp_all add: lift_def cm_def)
  have b: "cn < 256" "cm < 256" using n m by (auto simp add: cn_def cm_def)
  from r1 r2 b have lb: "lift cn < 256" "lift cm < 256"
    unfolding lift_def by presburger+
  from lift_inj [OF r1 r2 b] have "lift cn = lift cm \<longleftrightarrow> cn = cm"
    by (simp add: lift_def)
  with b lb show ?thesis
    by (simp add: c1 c2 l1 l2 f1 f2 char_of_eq_small)
qed

lemma map_eq_transfer:
  assumes "\<And>a b. f a = f b \<longleftrightarrow> g a = g b"
  shows "map f xs = map f ys \<longleftrightarrow> map g xs = map g ys"
proof (induction xs arbitrary: ys)
  case Nil
  show ?case by simp
next
  case (Cons x xs)
  show ?case by (cases ys) (simp_all add: assms Cons.IH)
qed

lemma sublist_map_split:
  "sublist (map f p) (map f s) \<longleftrightarrow> (\<exists>s1 s2 s3. s = s1 @ s2 @ s3 \<and> map f s2 = map f p)"
proof
  assume "sublist (map f p) (map f s)"
  then obtain ps ss where "map f s = ps @ map f p @ ss" by (auto simp add: sublist_def)
  then obtain s1 r where s: "s = s1 @ r" and "map f r = map f p @ ss"
    by (metis map_eq_append_conv)
  then obtain s2 s3 where "r = s2 @ s3" and "map f s2 = map f p"
    by (metis map_eq_append_conv)
  with s show "\<exists>s1 s2 s3. s = s1 @ s2 @ s3 \<and> map f s2 = map f p" by blast
next
  assume "\<exists>s1 s2 s3. s = s1 @ s2 @ s3 \<and> map f s2 = map f p"
  then obtain s1 s2 s3 where "s = s1 @ s2 @ s3" and "map f s2 = map f p" by blast
  then have "map f s = map f s1 @ map f p @ map f s3" by simp
  then show "sublist (map f p) (map f s)" by (auto simp add: sublist_def)
qed

text \<open>A case-insensitive test for one literal finds it exactly when the lower-cased text
  holds the lower-cased literal.\<close>

lemma regex_test_ci_lower:
  "regex_test_ci [p] s \<longleftrightarrow> sublist (toLowerCase p) (toLowerCase s)"
proof -
  have "regex_test_ci [p] s \<longleftrightarrow> sublist (map canon_unit p) (map canon_unit s)"
    by (simp add: regex_test_ci_def includes_sublist)
  also have "\<dots> \<longleftrightarrow> (\<exists>s1 s2 s3. s = s1 @ s2 @ s3 \<and> map canon_unit s2 = map canon_unit p)"
    by (rule sublist_map_split)
  also have "\<dots> \<longleftrightarrow> (\<exists>s1 s2 s3. s = s1 @ s2 @ s3 \<and> map lower_unit s2 = map lower_unit p)"
    using map_eq_transfer [of canon_unit lower_unit, OF same_letter] by simp
  also have "\<dots> \<longleftrightarrow> sublist (map lower_unit p) (map lower_unit s)"
    by (rule sublist_map_split [symmetric])
  finally show ?thesis by (simp add: toLowerCase_def)
qed

lemma length_toLowerCase: "length (toLowerCase s) = length s"
  by (simp add: toLowerCase_def)

lemma looksLikeCaptcha_spec: "looksLikeCaptcha txt ttl = spec_blocked txt ttl"
  unfolding looksLikeCaptcha_def spec_blocked_def occurs_in_def Let_def
    strong_def generic_def MIN_TEXT_FOR_OK_def
  by (simp add: includes_sublist) blast

text \<open>
  Claim C5. The classifier is a function of (text, title) alone and is case-insensitive:
  it flags a page exactly when one of the seven strong bot-wall phrases occurs in the
  text or in the title, whatever the length, or when one of the four generic CAPTCHA terms
  occurs in either field and the text is shorter than 300 code units. Two inputs that
  differ only in letter case are classified alike.
\<close>

theorem looksLikeCaptcha_classifier:
  "looksLikeCaptcha txt ttl = spec_blocked txt ttl
   \<and> (toLowerCase txt2 = toLowerCase txt \<and> toLowerCase ttl2 = toLowerCase ttl
        \<longrightarrow> looksLikeCaptcha txt2 ttl2 = looksLikeCaptcha txt ttl)"
proof
  show "looksLikeCaptcha txt ttl = spec_blocked txt ttl"
    by (rule looksLikeCaptcha_spec)
next
  show "toLowerCase txt2 = toLowerCase txt \<and> toLowerCase ttl2 = toLowerCase ttl
        \<longrightarrow> looksLikeCaptcha txt2 ttl2 = looksLikeCaptcha txt ttl"
  proof
    assume h: "toLowerCase txt2 = toLowerCase txt \<and> toLowerCase ttl2 = toLowerCase ttl"
    then have "length (toLowerCase txt2) = length (toLowerCase txt)" by simp
    then have "length txt2 = length txt" by (simp add: length_toLowerCase)
    with h show "looksLikeCaptcha txt2 ttl2 = looksLikeCaptcha txt ttl"
      by (simp add: looksLikeCaptcha_def)
  qed
qed

theorem looksLikeCaptcha_classifier_witness:
  "spec_blocked ''Please complete the CAPTCHA'' ''Just a moment''
   \<and> looksLikeCaptcha ''PLEASE complete the captcha'' ''JUST A MOMENT''"
proof -
  have a: "looksLikeCaptcha ''Please complete the CAPTCHA'' ''Just a moment''"
    by code_simp
  have l: "toLowerCase ''PLEASE complete the captcha'' = toLowerCase ''Please complete the CAPTCHA''
           \<and> toLowerCase ''JUST A MOMENT'' = toLowerCase ''Just a moment''"
    by code_simp
  from looksLikeCaptcha_classifier [of "''Please complete the CAPTCHA''" "''Just a moment''"
      "''PLEASE complete the captcha''" "''JUST A MOMENT''"] a l
  show ?thesis by simp
qed

text \<open>
  Claim C10. A generic CAPTCHA term counts whether it stands in the text or in the title,
  but the 300-unit threshold looks at the text's length only: when neither field holds a
  strong phrase, a text of 300 units or more is not flagged even if the title holds a
  generic term, and a text shorter than 300 units with a generic term in either field is
  flagged.
\<close>

theorem looksLikeCaptcha_threshold_on_text_only:
  assumes "\<not> (\<exists>p \<in> set strong. occurs_in p txt \<or> occurs_in p ttl)"
  shows "(300 \<le> length txt \<longrightarrow> \<not> looksLikeCaptcha txt ttl)
         \<and> (length txt < 300 \<and> (\<exists>g \<in> set generic. occurs_in g txt \<or> occurs_in g ttl)
              \<longrightarrow> looksLikeCaptcha txt ttl)"
  using assms
  unfolding looksLikeCaptcha_def occurs_in_def Let_def MIN_TEXT_FOR_OK_def
  by (auto simp add: includes_sublist list_ex_iff)

theorem looksLikeCaptcha_threshold_on_text_only_witness:
  "\<not> looksLikeCaptcha (replicate 300 (CHR ''a'')) ''reCAPTCHA check''
   \<and> looksLikeCaptcha ''one moment'' ''reCAPTCHA check''"
proof -
  have s1: "\<not> (\<exists>p \<in> set strong. occurs_in p (replicate 300 (CHR ''a''))
                  \<or> occurs_in p ''reCAPTCHA check'')"
    by code_simp
  have s2: "\<not> (\<exists>p \<in> set strong. occurs_in p ''one moment'' \<or> occurs_in p ''reCAPTCHA check'')"
    by code_simp
  have g: "\<exists>g \<in> set generic. occurs_in g ''one moment'' \<or> occurs_in g ''reCAPTCHA check''"
    by code_simp
  from looksLikeCaptcha_threshold_on_text_only [OF s1]
       looksLikeCaptcha_threshold_on_text_only [OF s2] g
  show ?thesis by simp
qed

section \<open>The paths through the pipeline\<close>

lemma scraperApiFetch_fulfills: "\<exists>t r. fst (scraperApiFetch e u) = Fulfills t r"
  by (auto simp add: scraperApiFetch_def Let_def split: if_splits prod.splits axios.splits)

lemma scraperApiFetch_failure_shape:
  assumes "fst (scraperApiFetch e u) = Fulfills t r" and "\<not> ok r"
  shows "reason r = Some ''scraperapi'' \<and> (\<exists>m. text' r = Some m \<and> m \<noteq> [])"
  using assms
  by (auto simp add: scraperApiFetch_def Let_def split: if_splits prod.splits axios.splits)

lemma hardCap_Fulfills:
  "hardCap (Fulfills t v) = (if t < PER_URL_TIMEOUT_MS then Inr v else Inl (JsError ''Error'' ''timeout''))"
  by (simp add: hardCap_def)

lemma or_else_nonempty: "d \<noteq> [] \<Longrightarrow> or_else x d \<noteq> []"
  by (simp add: or_else_def split: option.splits)

lemma apivoidCheck_fail_nonempty:
  assumes "fst (apivoidCheck e h) = ApiFail rsn txt"
  shows "rsn \<noteq> [] \<and> txt \<noteq> []"
  using assms
  by (auto simp add: apivoidCheck_def Let_def or_else_nonempty
      split: if_splits option.splits axios.splits)

lemmas processOne_unfold =
  processOne_def option.case Let_def prod.case apivoid_result.case sum.case
  not_True_eq_False not_False_eq_True if_False if_True

lemma processOne_malformed:
  assumes "normalizeUrl e inputUrl = None" and "js_string e inputUrl = Inr s"
  shows "processOne e inputUrl =
     (Inr \<lparr>status = ''failure'', url_input = inputUrl, failure_reason = ''wrong_format'',
           failure_text = ''The input url `'' @ s @ ''` is not properly formatted.'',
           scraped_text = [], ms = elapsed e inputUrl\<rparr>, [])"
  by (simp only: processOne_unfold assms)

lemma processOne_conversion_throws:
  assumes "normalizeUrl e inputUrl = None" and "js_string e inputUrl = Inl x"
  shows "processOne e inputUrl = (Inl x, [])"
  by (simp only: processOne_unfold assms)

lemma processOne_reputation_fail:
  assumes "normalizeUrl e inputUrl = Some u"
      and "apivoidCheck e (hostOnly e u) = (ApiFail rsn txt, ev1)"
  shows "processOne e inputUrl =
     (Inr \<lparr>status = ''failure'', url_input = inputUrl, failure_reason = rsn,
           failure_text = txt, scraped_text = [], ms = elapsed e inputUrl\<rparr>, ev1)"
  by (simp only: processOne_unfold assms)

lemma processOne_render_fail:
  assumes "normalizeUrl e inputUrl = Some u"
      and "apivoidCheck e (hostOnly e u) = (ApiOk, ev1)"
      and "(case hardCap (puppeteerFetch e u) of
              Inr r \<Rightarrow> r
            | Inl x \<Rightarrow>
                \<lparr>ok = False, reason = Some ''offline_on_puppeteer'',
                 text' = Some (err_text x), httpStatus = None,
                 title = [], content = []\<rparr>) = pptr"
      and "\<not> ok pptr"
  shows "processOne e inputUrl =
     (Inr \<lparr>status = ''failure'', url_input = inputUrl,
           failure_reason = ''offline_on_puppeteer'',
           failure_text = or_else (text' pptr) ''The webpage did not load.'',
           scraped_text = [], ms = elapsed e inputUrl\<rparr>,
      ev1 @ [Call_puppeteerFetch u])"
  using assms(4) by (simp only: processOne_unfold assms(1-3))

lemma processOne_render_clean:
  assumes "normalizeUrl e inputUrl = Some u"
      and "apivoidCheck e (hostOnly e u) = (ApiOk, ev1)"
      and "(case hardCap (puppeteerFetch e u) of
              Inr r \<Rightarrow> r
            | Inl x \<Rightarrow>
                \<lparr>ok = False, reason = Some ''offline_on_puppeteer'',
                 text' = Some (err_text x), httpStatus = None,
                 title = [], content = []\<rparr>) = pptr"
      and "ok pptr"
      and "\<not> looksLikeCaptcha (content pptr) (title pptr)"
  shows "processOne e inputUrl =
     (Inr \<lparr>status = ''success'', url_input = inputUrl, failure_reason = [], failure_text = [],
           scraped_text = content pptr, ms = elapsed e inputUrl\<rparr>,
      ev1 @ [Call_puppeteerFetch u])"
  using assms(4,5) by (simp only: processOne_unfold assms(1-3))

lemma processOne_fallback_path:
  assumes "normalizeUrl e inputUrl = Some u"
      and "apivoidCheck e (hostOnly e u) = (ApiOk, ev1)"
      and "(case hardCap (puppeteerFetch e u) of
              Inr r \<Rightarrow> r
            | Inl x \<Rightarrow>
                \<lparr>ok = False, reason = Some ''offline_on_puppeteer'',
                 text' = Some (err_text x), httpStatus = None,
                 title = [], content = []\<rparr>) = pptr"
      and "ok pptr"
      and "looksLikeCaptcha (content pptr) (title pptr)"
      and "scraperApiFetch e u = (p, ev3)"
  shows "processOne e inputUrl =
     (case hardCap p of
        Inl x \<Rightarrow>
          (Inl x, (ev1 @ [Call_puppeteerFetch u]) @ [Log_fallback u, Call_scraperApiFetch u] @ ev3)
      | Inr viaProxy \<Rightarrow>
          if \<not> ok viaProxy then
            (Inr \<lparr>status = ''failure'', url_input = inputUrl,
                  failure_reason = or_else (reason viaProxy) ''scraperapi'',
                  failure_text = or_else (text' viaProxy) ''ScraperAPI failed.'',
                  scraped_text = [], ms = elapsed e inputUrl\<rparr>,
             (ev1 @ [Call_puppeteerFetch u]) @ [Log_fallback u, Call_scraperApiFetch u] @ ev3)
          else if looksLikeCaptcha (content viaProxy) (title viaProxy) then
            (Inr \<lparr>status = ''failure'', url_input = inputUrl,
                  failure_reason = ''scraperapi'',
                  failure_text = ''ScraperAPI returned CAPTCHA/short content.'',
                  scraped_text = [], ms = elapsed e inputUrl\<rparr>,
             (ev1 @ [Call_puppeteerFetch u]) @ [Log_fallback u, Call_scraperApiFetch u] @ ev3)
          else
            (Inr \<lparr>status = ''success'', url_input = inputUrl,
                  failure_reason = [], failure_text = [],
                  scraped_text = content viaProxy, ms = elapsed e inputUrl\<rparr>,
             (ev1 @ [Call_puppeteerFetch u]) @ [Log_fallback u, Call_scraperApiFetch u] @ ev3))"
  using assms(4,5) by (simp only: processOne_unfold assms(1-3) assms(6))

text \<open>Every run of the pipeline takes one of eight ways out.\<close>

lemma processOne_cases:
  obtains
    (malformed) s where "normalizeUrl e inputUrl = None" "js_string e inputUrl = Inr s"
      "processOne e inputUrl =
         (Inr \<lparr>status = ''failure'', url_input = inputUrl, failure_reason = ''wrong_format'',
               failure_text = ''The input url `'' @ s @ ''` is not properly formatted.'',
               scraped_text = [], ms = elapsed e inputUrl\<rparr>, [])"
  | (conversion_throws) x where "normalizeUrl e inputUrl = None" "js_string e inputUrl = Inl x"
      "processOne e inputUrl = (Inl x, [])"
  | (reputation) u rsn msg ev1 where "normalizeUrl e inputUrl = Some u"
      "apivoidCheck e (hostOnly e u) = (ApiFail rsn msg, ev1)"
      "processOne e inputUrl =
         (Inr \<lparr>status = ''failure'', url_input = inputUrl, failure_reason = rsn,
               failure_text = msg, scraped_text = [], ms = elapsed e inputUrl\<rparr>, ev1)"
  | (render_fail) u ev msg where "normalizeUrl e inputUrl = Some u" "msg \<noteq> []"
      "processOne e inputUrl =
         (Inr \<lparr>status = ''failure'', url_input = inputUrl,
               failure_reason = ''offline_on_puppeteer'', failure_text = msg,
               scraped_text = [], ms = elapsed e inputUrl\<rparr>, ev)"
  | (render_clean) u ev pptr where "normalizeUrl e inputUrl = Some u"
      "hardCap (puppeteerFetch e u) = Inr pptr" "ok pptr"
      "\<not> looksLikeCaptcha (content pptr) (title pptr)"
      "processOne e inputUrl =
         (Inr \<lparr>status = ''success'', url_input = inputUrl, failure_reason = [],
               failure_text = [], scraped_text = content pptr, ms = elapsed e inputUrl\<rparr>, ev)"
  | (fallback_timeout) u ev t v where "normalizeUrl e inputUrl = Some u"
      "fst (scraperApiFetch e u) = Fulfills t v" "PER_URL_TIMEOUT_MS \<le> t"
      "processOne e inputUrl = (Inl (JsError ''Error'' ''timeout''), ev)"
  | (fallback_fail) u ev msg where "normalizeUrl e inputUrl = Some u" "msg \<noteq> []"
      "processOne e inputUrl =
         (Inr \<lparr>status = ''failure'', url_input = inputUrl, failure_reason = ''scraperapi'',
               failure_text = msg, scraped_text = [], ms = elapsed e inputUrl\<rparr>, ev)"
  | (fallback_clean) u ev t viaProxy where "normalizeUrl e inputUrl = Some u"
      "fst (scraperApiFetch e u) = Fulfills t viaProxy" "t < PER_URL_TIMEOUT_MS" "ok viaProxy"
      "\<not> looksLikeCaptcha (content viaProxy) (title viaProxy)"
      "processOne e inputUrl =
         (Inr \<lparr>status = ''success'', url_input = inputUrl, failure_reason = [],
               failure_text = [], scraped_text = content viaProxy, ms = elapsed e inputUrl\<rparr>, ev)"
proof (cases "normalizeUrl e inputUrl")
  case None
  show ?thesis
  proof (cases "js_string e inputUrl")
    case (Inl x)
    show ?thesis by (rule conversion_throws [OF None Inl processOne_conversion_throws [OF None Inl]])
  next
    case (Inr s)
    show ?thesis by (rule malformed [OF None Inr processOne_malformed [OF None Inr]])
  qed
next
  case (Some u)
  obtain apiRes ev1 where a: "apivoidCheck e (hostOnly e u) = (apiRes, ev1)"
    by (cases "apivoidCheck e (hostOnly e u)")
  show ?thesis
  proof (cases apiRes)
    case (ApiFail rsn msg)
    with a have a': "apivoidCheck e (hostOnly e u) = (ApiFail rsn msg, ev1)" by simp
    show ?thesis by (rule reputation [OF Some a' processOne_reputation_fail [OF Some a']])
  next
    case ApiOk
    with a have a': "apivoidCheck e (hostOnly e u) = (ApiOk, ev1)" by simp
    define pptr where "pptr =
       (case hardCap (puppeteerFetch e u) of
              Inr r \<Rightarrow> r
            | Inl x \<Rightarrow>
                \<lparr>ok = False, reason = Some ''offline_on_puppeteer'',
                 text' = Some (err_text x), httpStatus = None,
                 title = [], content = []\<rparr>)"
    then have pp: "(case hardCap (puppeteerFetch e u) of
              Inr r \<Rightarrow> r
            | Inl x \<Rightarrow>
                \<lparr>ok = False, reason = Some ''offline_on_puppeteer'',
                 text' = Some (err_text x), httpStatus = None,
                 title = [], content = []\<rparr>) = pptr" by (simp only:)
    show ?thesis
    proof (cases "ok pptr")
      case False
      have ne: "or_else (text' pptr) ''The webpage did not load.'' \<noteq> []"
        by (rule or_else_nonempty) simp
      show ?thesis
        by (rule render_fail [OF Some ne processOne_render_fail [OF Some a' pp False]])
    next
      case True
      have hp: "hardCap (puppeteerFetch e u) = Inr pptr"
      proof (cases "hardCap (puppeteerFetch e u)")
        case (Inl x)
        with pp have "pptr = \<lparr>ok = False, reason = Some ''offline_on_puppeteer'',
                 text' = Some (err_text x), httpStatus = None,
                 title = [], content = []\<rparr>" by (simp only: sum.case)
        then have "\<not> ok pptr" by simp
        with True show ?thesis by simp
      next
        case (Inr r)
        with pp have "pptr = r" by (simp only: sum.case)
        with Inr show ?thesis by simp
      qed
      show ?thesis
      proof (cases "looksLikeCaptcha (content pptr) (title pptr)")
        case False
        show ?thesis
          by (rule render_clean [OF Some hp True False
                processOne_render_clean [OF Some a' pp True False]])
      next
        case flagged: True
        obtain p ev3 where s: "scraperApiFetch e u = (p, ev3)"
          by (cases "scraperApiFetch e u")
        from scraperApiFetch_fulfills [of e u] s obtain t v where p: "p = Fulfills t v"
          by auto
        with s have f: "fst (scraperApiFetch e u) = Fulfills t v" by simp
        note path = processOne_fallback_path [OF Some a' pp True flagged s]
        show ?thesis
        proof (cases "t < PER_URL_TIMEOUT_MS")
          case False
          then have late: "PER_URL_TIMEOUT_MS \<le> t" by simp
          have "processOne e inputUrl =
              (Inl (JsError ''Error'' ''timeout''),
               (ev1 @ [Call_puppeteerFetch u]) @ [Log_fallback u, Call_scraperApiFetch u] @ ev3)"
            using False by (simp only: path p hardCap_Fulfills if_False sum.case)
          then show ?thesis by (rule fallback_timeout [OF Some f late])
        next
          case intime: True
          show ?thesis
          proof (cases "ok v")
            case False
            from scraperApiFetch_failure_shape [OF f False]
            obtain m where m: "reason v = Some ''scraperapi''" "text' v = Some m" "m \<noteq> []"
              by blast
            have r1: "or_else (reason v) ''scraperapi'' = ''scraperapi''"
              by (simp add: m or_else_def)
            have r2: "or_else (text' v) ''ScraperAPI failed.'' = m"
              by (simp add: m or_else_def)
            have "processOne e inputUrl =
              (Inr \<lparr>status = ''failure'', url_input = inputUrl, failure_reason = ''scraperapi'',
                 failure_text = m, scraped_text = [], ms = elapsed e inputUrl\<rparr>,
               (ev1 @ [Call_puppeteerFetch u]) @ [Log_fallback u, Call_scraperApiFetch u] @ ev3)"
              using intime False
              by (simp only: path p hardCap_Fulfills if_True sum.case r1 r2 not_False_eq_True)
            then show ?thesis by (rule fallback_fail [OF Some m(3)])
          next
            case okv: True
            show ?thesis
            proof (cases "looksLikeCaptcha (content v) (title v)")
              case True
              have ne: "''ScraperAPI returned CAPTCHA/short content.'' \<noteq> []" by simp
              have "processOne e inputUrl =
                (Inr \<lparr>status = ''failure'', url_input = inputUrl, failure_reason = ''scraperapi'',
                   failure_text = ''ScraperAPI returned CAPTCHA/short content.'',
                   scraped_text = [], ms = elapsed e inputUrl\<rparr>,
                 (ev1 @ [Call_puppeteerFetch u]) @ [Log_fallback u, Call_scraperApiFetch u] @ ev3)"
                using intime okv True
                by (simp only: path p hardCap_Fulfills if_True if_False sum.case
                      not_True_eq_False)
              then show ?thesis by (rule fallback_fail [OF Some ne])
            next
              case False
              have "processOne e inputUrl =
                (Inr \<lparr>status = ''success'', url_input = inputUrl, failure_reason = [],
                   failure_text = [], scraped_text = content v, ms = elapsed e inputUrl\<rparr>,
                 (ev1 @ [Call_puppeteerFetch u]) @ [Log_fallback u, Call_scraperApiFetch u] @ ev3)"
                using intime okv False
                by (simp only: path p hardCap_Fulfills if_True if_False sum.case
                      not_True_eq_False)
              then show ?thesis by (rule fallback_clean [OF Some f intime okv False])
            qed
          qed
        qed
      qed
    qed
  qed
qed

section \<open>The sample environments, evaluated\<close>

lemmas sample_defs =
  sample_env_def sample_parse_def sample_split_def sample_page_def
  no_key_env_def captcha_env_def slow_proxy_env_def empty_page_env_def offline_parked_env_def

lemma sample_normalizeUrl:
  "url_parse e = sample_parse \<Longrightarrow>
   normalizeUrl e (JStr ''http://example.com'') = Some ''http://example.com/''"
  by (simp add: normalizeUrl_def sample_defs)

lemma sample_hostOnly:
  "url_parse e = sample_parse \<Longrightarrow> hostOnly e ''http://example.com/'' = Some ''example.com''"
  by (simp add: hostOnly_def sample_defs)

lemma sample_foobar:
  "url_parse e = sample_parse \<Longrightarrow> normalizeUrl e (JStr ''foobar'') = None"
  by (simp add: normalizeUrl_def sample_defs)

lemma sample_html_text:
  "htmlToText ''<title>Hi</title><p>Example Domain</p>''
     = ''Hi Example Domain''"
  by code_simp

lemma sample_html_title:
  "match_title ''<title>Hi</title><p>Example Domain</p>''
     = Some ''Hi''"
  by code_simp

lemma sample_title_text: "htmlToText ''Hi'' = ''Hi''"
  by code_simp

lemma captcha_flagged: "looksLikeCaptcha ''Please complete the CAPTCHA'' ''Just a moment''"
  by code_simp

lemma proxy_clean: "\<not> looksLikeCaptcha ''Hi Example Domain'' ''Hi''"
  by code_simp

lemma empty_clean: "\<not> looksLikeCaptcha [] ''Home''"
  by code_simp

lemma captcha_scraper:
  "scraperApiFetch captcha_env ''http://example.com/'' =
     (Fulfills 2000 \<lparr>ok = True, reason = None, text' = None, httpStatus = Some 200,
        title = ''Hi'', content = ''Hi Example Domain''\<rparr>,
      [Net_scraperapi ''http://example.com/''])"
  by (simp add: scraperApiFetch_def sample_defs sample_html_text sample_html_title
      sample_title_text TEXT_MAX_CHARS_def Let_def del: match_title.simps)

lemma captcha_primary:
  "page_for e ''http://example.com/'' = sample_page ''Just a moment'' ''Please complete the CAPTCHA''
   \<Longrightarrow> hardCap (puppeteerFetch e ''http://example.com/'') =
     Inr \<lparr>ok = True, reason = None, text' = None, httpStatus = Some 200,
        title = ''Just a moment'', content = ''Please complete the CAPTCHA''\<rparr>"
  by (simp add: hardCap_def puppeteerFetch_def withPage_def sample_page_def
      PER_URL_TIMEOUT_MS_def TEXT_MAX_CHARS_def numeral_2_eq_2)

lemma sample_reputation:
  "APIVOID_KEY e = ''k1'' \<Longrightarrow> apivoid_post e = apivoid_post sample_env \<Longrightarrow>
   apivoidCheck e (Some ''example.com'') = (ApiOk, [Net_apivoid ''example.com''])"
  by (simp add: apivoidCheck_def sample_env_def truthy_str_def flag_def)


lemma slow_scraper:
  "scraperApiFetch slow_proxy_env ''http://example.com/'' =
     (Fulfills 75000 \<lparr>ok = True, reason = None, text' = None, httpStatus = Some 200,
        title = ''Hi'', content = ''Hi Example Domain''\<rparr>,
      [Net_scraperapi ''http://example.com/''])"
  by (simp add: scraperApiFetch_def sample_defs sample_html_text sample_html_title
      sample_title_text TEXT_MAX_CHARS_def Let_def del: match_title.simps)

lemma empty_primary:
  "hardCap (puppeteerFetch empty_page_env ''http://example.com/'') =
     Inr \<lparr>ok = True, reason = None, text' = None, httpStatus = Some 200,
        title = ''Home'', content = []\<rparr>"
  by (simp add: hardCap_def puppeteerFetch_def withPage_def sample_defs
      PER_URL_TIMEOUT_MS_def TEXT_MAX_CHARS_def numeral_2_eq_2)

lemma primary_case:
  "hardCap (puppeteerFetch e u) = Inr pptr \<Longrightarrow>
   (case hardCap (puppeteerFetch e u) of
      Inr r \<Rightarrow> r
    | Inl x \<Rightarrow>
        \<lparr>ok = False, reason = Some ''offline_on_puppeteer'',
         text' = Some (err_text x), httpStatus = None,
         title = [], content = []\<rparr>) = pptr"
  by (simp only: sum.case)

lemma slow_proxy_run:
  "processOne slow_proxy_env (JStr ''http://example.com'') =
     (Inl (JsError ''Error'' ''timeout''),
      [Net_apivoid ''example.com'', Call_puppeteerFetch ''http://example.com/'',
       Log_fallback ''http://example.com/'', Call_scraperApiFetch ''http://example.com/'',
       Net_scraperapi ''http://example.com/''])"
proof -
  have norm: "normalizeUrl slow_proxy_env (JStr ''http://example.com'') = Some ''http://example.com/''"
    by (rule sample_normalizeUrl) (simp add: sample_defs)
  have host: "hostOnly slow_proxy_env ''http://example.com/'' = Some ''example.com''"
    by (rule sample_hostOnly) (simp add: sample_defs)
  have "apivoidCheck slow_proxy_env (Some ''example.com'') = (ApiOk, [Net_apivoid ''example.com''])"
    by (rule sample_reputation) (simp_all add: sample_defs)
  with host have rep: "apivoidCheck slow_proxy_env (hostOnly slow_proxy_env ''http://example.com/'')
      = (ApiOk, [Net_apivoid ''example.com''])"
    by simp
  have prim: "hardCap (puppeteerFetch slow_proxy_env ''http://example.com/'') =
     Inr \<lparr>ok = True, reason = None, text' = None, httpStatus = Some 200,
        title = ''Just a moment'', content = ''Please complete the CAPTCHA''\<rparr>"
    by (rule captcha_primary) (simp add: sample_defs)
  have okp: "ok \<lparr>ok = True, reason = None, text' = None, httpStatus = Some 200,
        title = ''Just a moment'', content = ''Please complete the CAPTCHA''\<rparr>"
    by simp
  have flagged: "looksLikeCaptcha
     (content \<lparr>ok = True, reason = None, text' = None, httpStatus = Some 200,
        title = ''Just a moment'', content = ''Please complete the CAPTCHA''\<rparr>)
     (title \<lparr>ok = True, reason = None, text' = None, httpStatus = Some 200,
        title = ''Just a moment'', content = ''Please complete the CAPTCHA''\<rparr>)"
    using captcha_flagged by simp
  from processOne_fallback_path [OF norm rep primary_case [OF prim] okp flagged slow_scraper]
  show ?thesis by (simp add: hardCap_def PER_URL_TIMEOUT_MS_def)
qed

text \<open>The text made from a bare status never reads as an invalid domain name.\<close>

lemma show_nat_digits: "\<forall>c \<in> set (show_nat n). 48 \<le> (of_char c :: nat) \<and> (of_char c :: nat) \<le> 57"
proof (induction n rule: show_nat.induct)
  case (1 n)
  show ?case
  proof (cases "n < 10")
    case True
    then have "(48 + n) mod 256 = 48 + n" by simp
    with True show ?thesis by (subst show_nat.simps) simp
  next
    case False
    have "(48 + n mod 10) mod 256 = 48 + n mod 10" by simp
    moreover have "n mod 10 \<le> 9" by simp
    ultimately show ?thesis using False 1
      by (subst show_nat.simps) auto
  qed
qed

lemma http_status_text_no_match:
  "\<not> occurs_in ''domain name is not valid'' (''APIVoid HTTP '' @ show_nat st)"
proof
  assume "occurs_in ''domain name is not valid'' (''APIVoid HTTP '' @ show_nat st)"
  then have "set ''domain name is not valid'' \<subseteq> set (toLowerCase (''APIVoid HTTP '' @ show_nat st))"
    unfolding occurs_in_def by (rule set_mono_sublist)
  then have "CHR ''m'' \<in> set (toLowerCase (''APIVoid HTTP '' @ show_nat st))" by auto
  then have "CHR ''m'' \<in> set (toLowerCase ''APIVoid HTTP '') \<or> CHR ''m'' \<in> lower_unit ` set (show_nat st)"
    by (auto simp add: toLowerCase_def)
  moreover have "CHR ''m'' \<notin> set (toLowerCase ''APIVoid HTTP '')" by code_simp
  moreover have "CHR ''m'' \<notin> lower_unit ` set (show_nat st)"
  proof
    assume "CHR ''m'' \<in> lower_unit ` set (show_nat st)"
    then obtain c where c: "c \<in> set (show_nat st)" and m: "lower_unit c = CHR ''m''" by auto
    from show_nat_digits c have "48 \<le> (of_char c :: nat) \<and> (of_char c :: nat) \<le> 57" by blast
    then have "lower_unit c = c" by (simp add: lower_unit_def Let_def)
    with m have "c = CHR ''m''" by simp
    with \<open>48 \<le> (of_char c :: nat) \<and> (of_char c :: nat) \<le> 57\<close> show False by simp
  qed
  ultimately show False by blast
qed


lemmas reputation_envs =
  sample_env_def parked_env_def offline_parked_env_def invalid_domain_env_def
  unauthorized_env_def unreachable_env_def

lemma invalid_phrase: "occurs_in ''domain name is not valid'' ''Domain name is NOT valid''"
  by code_simp

text \<open>
  Claim C6. When the checker calls the service (credential present, host derived), it
  classifies the answer by the first rule that applies. A transport or timeout error
  gives fail/apivoid_api_key. A response with a non-empty error text gives
  fail/wrong_format when that text holds "domain name is not valid" without regard to
  case, and fail/apivoid_api_key otherwise; a status of 400 or more without an error text
  gives fail/apivoid_api_key. A response below 400 without an error text gives
  fail/a_records_not_found unless its a_records_found is true, whatever parked_domain
  says; with a_records_found true it gives fail/parked_domain when parked_domain is true,
  and ok otherwise.
\<close>

theorem apivoidCheck_first_match:
  assumes "APIVOID_KEY e \<noteq> []" and "h \<noteq> []"
  shows "(apivoid_post e h = AxiosThrows x
            \<longrightarrow> fail_reason (fst (apivoidCheck e (Some h))) = Some ''apivoid_api_key'')
       \<and> (apivoid_post e h = AxiosResponds st (Some r) \<and> error r = Some s \<and> s \<noteq> []
            \<longrightarrow> fail_reason (fst (apivoidCheck e (Some h))) =
                  Some (if occurs_in ''domain name is not valid'' s
                        then ''wrong_format'' else ''apivoid_api_key''))
       \<and> (apivoid_post e h = AxiosResponds st d \<and> 400 \<le> st
             \<and> (\<forall>b. d = Some b \<longrightarrow> error b = None \<or> error b = Some [])
            \<longrightarrow> fail_reason (fst (apivoidCheck e (Some h))) = Some ''apivoid_api_key'')
       \<and> (apivoid_post e h = AxiosResponds st d \<and> st < 400
             \<and> (\<forall>b. d = Some b \<longrightarrow> (error b = None \<or> error b = Some [])
                                   \<and> a_records_found b \<noteq> Some True)
            \<longrightarrow> fail_reason (fst (apivoidCheck e (Some h))) = Some ''a_records_not_found'')
       \<and> (apivoid_post e h = AxiosResponds st (Some r) \<and> st < 400
             \<and> (error r = None \<or> error r = Some [])
             \<and> a_records_found r = Some True \<and> parked_domain r = Some True
            \<longrightarrow> fail_reason (fst (apivoidCheck e (Some h))) = Some ''parked_domain'')
       \<and> (apivoid_post e h = AxiosResponds st (Some r) \<and> st < 400
             \<and> (error r = None \<or> error r = Some [])
             \<and> a_records_found r = Some True \<and> parked_domain r \<noteq> Some True
            \<longrightarrow> fst (apivoidCheck e (Some h)) = ApiOk)"
proof -
  have lower: "toLowerCase ''domain name is not valid'' = ''domain name is not valid''"
    by code_simp
  have rx: "regex_test_ci [''domain name is not valid''] m
               = occurs_in ''domain name is not valid'' m" for m
    by (simp add: regex_test_ci_lower occurs_in_def lower)
  have c1: "fail_reason (fst (apivoidCheck e (Some h))) = Some ''apivoid_api_key''"
    if "apivoid_post e h = AxiosThrows x"
    using assms that by (simp add: apivoidCheck_def fail_reason_def)
  have c2: "fail_reason (fst (apivoidCheck e (Some h))) =
                  Some (if occurs_in ''domain name is not valid'' s
                        then ''wrong_format'' else ''apivoid_api_key'')"
    if "apivoid_post e h = AxiosResponds st (Some r)" and "error r = Some s" and "s \<noteq> []"
    using assms that
    by (simp add: apivoidCheck_def fail_reason_def Let_def truthy_str_def or_else_def rx)
  have c3: "fail_reason (fst (apivoidCheck e (Some h))) = Some ''apivoid_api_key''"
    if "apivoid_post e h = AxiosResponds st d" and "400 \<le> st"
      and "\<forall>b. d = Some b \<longrightarrow> error b = None \<or> error b = Some []"
  proof -
    from that(3) have "or_else (case d of None \<Rightarrow> None | Some b \<Rightarrow> error b)
        (''APIVoid HTTP '' @ show_nat st) = ''APIVoid HTTP '' @ show_nat st"
      by (cases d) (auto simp add: or_else_def)
    with assms that(1,2) http_status_text_no_match [of st] show ?thesis
      by (simp add: apivoidCheck_def fail_reason_def Let_def rx)
  qed
  have noerr: "\<not> truthy_str (case d of None \<Rightarrow> None | Some b \<Rightarrow> error b)"
    if "\<forall>b. d = Some b \<longrightarrow> error b = None \<or> error b = Some []" for d
    using that by (cases d) (auto simp add: truthy_str_def)
  have c4: "fail_reason (fst (apivoidCheck e (Some h))) = Some ''a_records_not_found''"
    if "apivoid_post e h = AxiosResponds st d" and "st < 400"
      and "\<forall>b. d = Some b \<longrightarrow> (error b = None \<or> error b = Some [])
                                   \<and> a_records_found b \<noteq> Some True"
  proof -
    from that(3) have "\<not> truthy_str (case d of None \<Rightarrow> None | Some b \<Rightarrow> error b)"
      by (intro noerr) auto
    moreover from that(3) have "\<not> flag d a_records_found"
      by (cases d) (auto simp add: flag_def)
    ultimately show ?thesis
      using assms that(1,2) by (simp add: apivoidCheck_def fail_reason_def Let_def)
  qed
  have c5: "fail_reason (fst (apivoidCheck e (Some h))) = Some ''parked_domain''"
    if "apivoid_post e h = AxiosResponds st (Some r)" and "st < 400"
      and "error r = None \<or> error r = Some []"
      and "a_records_found r = Some True" and "parked_domain r = Some True"
  proof -
    from that(3) have "\<not> truthy_str (case Some r of None \<Rightarrow> None | Some b \<Rightarrow> error b)"
      by (intro noerr) auto
    with assms that show ?thesis
      by (simp add: apivoidCheck_def fail_reason_def Let_def flag_def)
  qed
  have c6: "fst (apivoidCheck e (Some h)) = ApiOk"
    if "apivoid_post e h = AxiosResponds st (Some r)" and "st < 400"
      and "error r = None \<or> error r = Some []"
      and "a_records_found r = Some True" and "parked_domain r \<noteq> Some True"
  proof -
    from that(3) have "\<not> truthy_str (case Some r of None \<Rightarrow> None | Some b \<Rightarrow> error b)"
      by (intro noerr) auto
    with assms that show ?thesis
      by (simp add: apivoidCheck_def Let_def flag_def)
  qed
  from c1 c2 c3 c4 c5 c6 show ?thesis by blast
qed


theorem apivoidCheck_first_match_witness:
  "fst (apivoidCheck sample_env (Some ''example.com'')) = ApiOk
   \<and> fail_reason (fst (apivoidCheck parked_env (Some ''example.com''))) = Some ''parked_domain''
   \<and> fail_reason (fst (apivoidCheck offline_parked_env (Some ''example.com'')))
       = Some ''a_records_not_found''
   \<and> fail_reason (fst (apivoidCheck invalid_domain_env (Some ''example.com'')))
       = Some ''wrong_format''
   \<and> fail_reason (fst (apivoidCheck unauthorized_env (Some ''example.com'')))
       = Some ''apivoid_api_key''
   \<and> fail_reason (fst (apivoidCheck unreachable_env (Some ''example.com'')))
       = Some ''apivoid_api_key''"
proof -
  have h: "''example.com'' \<noteq> []" by simp
  have k: "APIVOID_KEY sample_env \<noteq> []" "APIVOID_KEY parked_env \<noteq> []"
    "APIVOID_KEY offline_parked_env \<noteq> []" "APIVOID_KEY invalid_domain_env \<noteq> []"
    "APIVOID_KEY unauthorized_env \<noteq> []" "APIVOID_KEY unreachable_env \<noteq> []"
    by (simp_all add: reputation_envs)
  have a: "fst (apivoidCheck sample_env (Some ''example.com'')) = ApiOk"
    using apivoidCheck_first_match [OF k(1) h, of _ 200
      "\<lparr>error = None, a_records_found = Some True, parked_domain = Some False\<rparr>"]
    by (simp add: sample_env_def)
  have b: "fail_reason (fst (apivoidCheck parked_env (Some ''example.com''))) = Some ''parked_domain''"
    using apivoidCheck_first_match [OF k(2) h, of _ 200
      "\<lparr>error = None, a_records_found = Some True, parked_domain = Some True\<rparr>"]
    by (simp add: parked_env_def sample_env_def)
  have c: "fail_reason (fst (apivoidCheck offline_parked_env (Some ''example.com'')))
       = Some ''a_records_not_found''"
    using apivoidCheck_first_match [OF k(3) h, of _ 200 _ _
      "Some \<lparr>error = None, a_records_found = Some False, parked_domain = Some True\<rparr>"]
    by (simp add: offline_parked_env_def sample_env_def)
  have d: "fail_reason (fst (apivoidCheck invalid_domain_env (Some ''example.com'')))
       = Some ''wrong_format''"
    using apivoidCheck_first_match [OF k(4) h, of _ 200
      "\<lparr>error = Some ''Domain name is NOT valid'', a_records_found = None,
         parked_domain = None\<rparr>" "''Domain name is NOT valid''"] invalid_phrase
    by (simp add: invalid_domain_env_def sample_env_def)
  have e: "fail_reason (fst (apivoidCheck unauthorized_env (Some ''example.com'')))
       = Some ''apivoid_api_key''"
    using apivoidCheck_first_match [OF k(5) h, of _ 401 _ _ None]
    by (simp add: unauthorized_env_def sample_env_def)
  have f: "fail_reason (fst (apivoidCheck unreachable_env (Some ''example.com'')))
       = Some ''apivoid_api_key''"
    using apivoidCheck_first_match [OF k(6) h, of "JsError ''Error'' ''timeout of 12000ms exceeded''"]
    by (simp add: unreachable_env_def sample_env_def)
  from a b c d e f show ?thesis by simp
qed

text \<open>
  When the primary render succeeds and the classifier flags its content, the fallback
  fetcher is called; and for a fallback fetch that settles before the timer, a failure of
  the fetch ends the run as Failure(scraperapi) with the fetcher's message, content flagged
  again ends it as Failure(scraperapi), and anything else ends it as Success whose
  scraped_text is the fallback's text.
\<close>

lemma processOne_fallback_within_cap:
  assumes norm: "normalizeUrl e inputUrl = Some u"
      and rep: "fst (apivoidCheck e (hostOnly e u)) = ApiOk"
      and prim: "hardCap (puppeteerFetch e u) = Inr pptr" and okp: "ok pptr"
      and flagged: "looksLikeCaptcha (content pptr) (title pptr)"
  shows "Call_scraperApiFetch u \<in> set (snd (processOne e inputUrl))
       \<and> (\<forall>viaProxy. hardCap (fst (scraperApiFetch e u)) = Inr viaProxy \<longrightarrow>
            (\<not> ok viaProxy \<longrightarrow>
               (\<exists>r. fst (processOne e inputUrl) = Inr r \<and> status r = ''failure''
                    \<and> failure_reason r = ''scraperapi''
                    \<and> text' viaProxy = Some (failure_text r) \<and> scraped_text r = []))
          \<and> (ok viaProxy \<and> looksLikeCaptcha (content viaProxy) (title viaProxy) \<longrightarrow>
               (\<exists>r. fst (processOne e inputUrl) = Inr r \<and> status r = ''failure''
                    \<and> failure_reason r = ''scraperapi'' \<and> scraped_text r = []))
          \<and> (ok viaProxy \<and> \<not> looksLikeCaptcha (content viaProxy) (title viaProxy) \<longrightarrow>
               (\<exists>r. fst (processOne e inputUrl) = Inr r \<and> status r = ''success''
                    \<and> scraped_text r = content viaProxy)))"
proof -
  obtain ev1 where a: "apivoidCheck e (hostOnly e u) = (ApiOk, ev1)"
    using rep by (cases "apivoidCheck e (hostOnly e u)") simp
  obtain p ev3 where s: "scraperApiFetch e u = (p, ev3)"
    by (cases "scraperApiFetch e u")
  note path = processOne_fallback_path [OF norm a primary_case [OF prim] okp flagged s]
  have called: "Call_scraperApiFetch u \<in> set (snd (processOne e inputUrl))"
    unfolding path by (cases "hardCap p") simp_all
  have rest: "(\<not> ok v \<longrightarrow>
               (\<exists>r. fst (processOne e inputUrl) = Inr r \<and> status r = ''failure''
                    \<and> failure_reason r = ''scraperapi''
                    \<and> text' v = Some (failure_text r) \<and> scraped_text r = []))
          \<and> (ok v \<and> looksLikeCaptcha (content v) (title v) \<longrightarrow>
               (\<exists>r. fst (processOne e inputUrl) = Inr r \<and> status r = ''failure''
                    \<and> failure_reason r = ''scraperapi'' \<and> scraped_text r = []))
          \<and> (ok v \<and> \<not> looksLikeCaptcha (content v) (title v) \<longrightarrow>
               (\<exists>r. fst (processOne e inputUrl) = Inr r \<and> status r = ''success''
                    \<and> scraped_text r = content v))"
    if v: "hardCap (fst (scraperApiFetch e u)) = Inr v" for v
  proof -
    from v s have hp: "hardCap p = Inr v" by simp
    have shape: "reason v = Some ''scraperapi'' \<and> (\<exists>m. text' v = Some m \<and> m \<noteq> [])"
      if "\<not> ok v"
    proof -
      from v obtain t where "fst (scraperApiFetch e u) = Fulfills t v"
        by (cases "fst (scraperApiFetch e u)") (auto simp add: hardCap_def split: if_splits)
      from scraperApiFetch_failure_shape [OF this that] show ?thesis .
    qed
    show ?thesis
      unfolding path hp using shape
      by (auto simp add: or_else_def)
  qed
  from called rest show ?thesis by blast
qed


lemma captcha_run_succeeds_via_proxy:
  "Call_scraperApiFetch ''http://example.com/''
     \<in> set (snd (processOne captcha_env (JStr ''http://example.com'')))
   \<and> (\<exists>r. fst (processOne captcha_env (JStr ''http://example.com'')) = Inr r
          \<and> status r = ''success'' \<and> scraped_text r = ''Hi Example Domain'')"
proof -
  have norm: "normalizeUrl captcha_env (JStr ''http://example.com'') = Some ''http://example.com/''"
    by (rule sample_normalizeUrl) (simp add: sample_defs)
  have host: "hostOnly captcha_env ''http://example.com/'' = Some ''example.com''"
    by (rule sample_hostOnly) (simp add: sample_defs)
  have "apivoidCheck captcha_env (Some ''example.com'') = (ApiOk, [Net_apivoid ''example.com''])"
    by (rule sample_reputation) (simp_all add: sample_defs)
  with host have rep: "fst (apivoidCheck captcha_env (hostOnly captcha_env ''http://example.com/'')) = ApiOk"
    by simp
  have prim: "hardCap (puppeteerFetch captcha_env ''http://example.com/'') =
     Inr \<lparr>ok = True, reason = None, text' = None, httpStatus = Some 200,
        title = ''Just a moment'', content = ''Please complete the CAPTCHA''\<rparr>"
    by (rule captcha_primary) (simp add: sample_defs)
  have okp: "ok \<lparr>ok = True, reason = None, text' = None, httpStatus = Some 200,
        title = ''Just a moment'', content = ''Please complete the CAPTCHA''\<rparr>"
    by simp
  have flagged: "looksLikeCaptcha
     (content \<lparr>ok = True, reason = None, text' = None, httpStatus = Some 200,
        title = ''Just a moment'', content = ''Please complete the CAPTCHA''\<rparr>)
     (title \<lparr>ok = True, reason = None, text' = None, httpStatus = Some 200,
        title = ''Just a moment'', content = ''Please complete the CAPTCHA''\<rparr>)"
    using captcha_flagged by simp
  have via: "hardCap (fst (scraperApiFetch captcha_env ''http://example.com/'')) =
     Inr \<lparr>ok = True, reason = None, text' = None, httpStatus = Some 200,
        title = ''Hi'', content = ''Hi Example Domain''\<rparr>"
    by (simp add: captcha_scraper hardCap_def PER_URL_TIMEOUT_MS_def)
  from processOne_fallback_within_cap [OF norm rep prim okp flagged] via proxy_clean
  show ?thesis by simp
qed

text \<open>
  Claim C7 at a run whose fallback fetch settles only after the timer: the primary render
  succeeded and its content is flagged, and the fallback fetch fulfils with an ok result
  whose content the classifier does not flag; yet the run does not end as Success with the
  fallback's text, it ends with the timer's exception.
\<close>

theorem fallback_content_lost_to_timer:
  "hardCap (puppeteerFetch slow_proxy_env ''http://example.com/'') =
     Inr \<lparr>ok = True, reason = None, text' = None, httpStatus = Some 200,
          title = ''Just a moment'', content = ''Please complete the CAPTCHA''\<rparr>
   \<and> looksLikeCaptcha ''Please complete the CAPTCHA'' ''Just a moment''
   \<and> fst (scraperApiFetch slow_proxy_env ''http://example.com/'') =
       Fulfills 75000 \<lparr>ok = True, reason = None, text' = None, httpStatus = Some 200,
          title = ''Hi'', content = ''Hi Example Domain''\<rparr>
   \<and> \<not> looksLikeCaptcha ''Hi Example Domain'' ''Hi''
   \<and> fst (processOne slow_proxy_env (JStr ''http://example.com'')) =
       Inl (JsError ''Error'' ''timeout'')"
proof -
  have "hardCap (puppeteerFetch slow_proxy_env ''http://example.com/'') =
     Inr \<lparr>ok = True, reason = None, text' = None, httpStatus = Some 200,
          title = ''Just a moment'', content = ''Please complete the CAPTCHA''\<rparr>"
    by (rule captcha_primary) (simp add: sample_defs)
  with captcha_flagged proxy_clean slow_scraper slow_proxy_run show ?thesis by simp
qed

text \<open>With the reputation credential absent no input makes the pipeline call anything
  outside.\<close>

lemma missing_credential_no_calls:
  assumes "APIVOID_KEY e = []"
  shows "snd (processOne e inputUrl) = []"
proof (cases "normalizeUrl e inputUrl")
  case None
  show ?thesis
  proof (cases "js_string e inputUrl")
    case (Inl x)
    from processOne_conversion_throws [OF None Inl] show ?thesis by simp
  next
    case (Inr s)
    from processOne_malformed [OF None Inr] show ?thesis by simp
  qed
next
  case (Some u)
  have "apivoidCheck e (hostOnly e u) =
          (ApiFail ''apivoid_api_key'' ''APIVoid API key is missing.'', [])"
    using assms by (simp add: apivoidCheck_def)
  from processOne_reputation_fail [OF Some this] show ?thesis by simp
qed

text \<open>
  Claim C4, as the code has it. With the reputation credential absent, every input string
  that passes the URL format check ends as Failure with reason apivoid_api_key, whatever
  the rest of its content; an input string that fails the format check ends as Failure with
  reason wrong_format; and in neither case is any external call made, so none to the
  reputation service.
\<close>

theorem processOne_missing_credential:
  assumes "APIVOID_KEY e = []"
  shows "snd (processOne e (JStr s)) = []
       \<and> (normalizeUrl e (JStr s) \<noteq> None \<longrightarrow>
            fst (processOne e (JStr s)) =
              Inr \<lparr>status = ''failure'', url_input = JStr s,
                   failure_reason = ''apivoid_api_key'',
                   failure_text = ''APIVoid API key is missing.'',
                   scraped_text = [], ms = elapsed e (JStr s)\<rparr>)
       \<and> (normalizeUrl e (JStr s) = None \<longrightarrow>
            fst (processOne e (JStr s)) =
              Inr \<lparr>status = ''failure'', url_input = JStr s,
                   failure_reason = ''wrong_format'',
                   failure_text = ''The input url `'' @ s @ ''` is not properly formatted.'',
                   scraped_text = [], ms = elapsed e (JStr s)\<rparr>)"
proof (cases "normalizeUrl e (JStr s)")
  case None
  have c: "js_string e (JStr s) = Inr s" by simp
  from processOne_malformed [OF None c] None show ?thesis by simp
next
  case (Some u)
  have "apivoidCheck e (hostOnly e u) =
          (ApiFail ''apivoid_api_key'' ''APIVoid API key is missing.'', [])"
    using assms by (simp add: apivoidCheck_def)
  from processOne_reputation_fail [OF Some this] Some show ?thesis by simp
qed

theorem processOne_missing_credential_witness:
  "fst (processOne no_key_env (JStr ''http://example.com'')) =
     Inr \<lparr>status = ''failure'', url_input = JStr ''http://example.com'',
          failure_reason = ''apivoid_api_key'',
          failure_text = ''APIVoid API key is missing.'',
          scraped_text = [], ms = 1600\<rparr>
   \<and> snd (processOne no_key_env (JStr ''http://example.com'')) = []
   \<and> fst (processOne no_key_env (JStr ''ftp://example.com'')) =
     Inr \<lparr>status = ''failure'', url_input = JStr ''ftp://example.com'',
          failure_reason = ''wrong_format'',
          failure_text = ''The input url `ftp://example.com` is not properly formatted.'',
          scraped_text = [], ms = 1600\<rparr>
   \<and> snd (processOne no_key_env (JStr ''ftp://example.com'')) = []"
proof -
  have k: "APIVOID_KEY no_key_env = []" by (simp add: sample_defs)
  have n: "normalizeUrl no_key_env (JStr ''http://example.com'') = Some ''http://example.com/''"
    by (rule sample_normalizeUrl) (simp add: sample_defs)
  have m: "normalizeUrl no_key_env (JStr ''ftp://example.com'') = None"
    by (simp add: normalizeUrl_def sample_defs)
  have el: "elapsed no_key_env u = 1600" for u by (simp add: sample_defs)
  from processOne_missing_credential [OF k, of "''http://example.com''"]
       processOne_missing_credential [OF k, of "''ftp://example.com''"] n m el
  show ?thesis by simp
qed

text \<open>
  Claim C4 as stated fails: with the credential absent, the input \<open>foobar\<close> ends as
  Failure with reason wrong_format, since the format check comes first.
\<close>

theorem processOne_missing_credential_counterexample:
  "APIVOID_KEY no_key_env = []
   \<and> processOne no_key_env (JStr ''foobar'') =
       (Inr \<lparr>status = ''failure'', url_input = JStr ''foobar'',
             failure_reason = ''wrong_format'',
             failure_text = ''The input url `foobar` is not properly formatted.'',
             scraped_text = [], ms = 1600\<rparr>, [])"
proof -
  have n: "normalizeUrl no_key_env (JStr ''foobar'') = None"
    by (rule sample_foobar) (simp add: sample_defs)
  have c: "js_string no_key_env (JStr ''foobar'') = Inr ''foobar''" by simp
  from processOne_malformed [OF n c] show ?thesis by (simp add: sample_defs)
qed

text \<open>
  What does hold of every returned object: a failure carries a non-empty reason and text
  and no scraped text; a success carries empty failure fields. The scraped text of a
  success is whatever the fetch returned.
\<close>

lemma processOne_result_fields:
  assumes "fst (processOne e inputUrl) = Inr r"
  shows "(status r = ''failure'' \<and> failure_reason r \<noteq> [] \<and> failure_text r \<noteq> []
            \<and> scraped_text r = [])
       \<or> (status r = ''success'' \<and> failure_reason r = [] \<and> failure_text r = [])"
proof (cases e inputUrl rule: processOne_cases)
  case (malformed s)
  with assms show ?thesis by auto
next
  case (conversion_throws x)
  with assms show ?thesis by auto
next
  case (reputation u rsn msg ev1)
  from reputation(2) have "fst (apivoidCheck e (hostOnly e u)) = ApiFail rsn msg" by simp
  from apivoidCheck_fail_nonempty [OF this] reputation(3) assms show ?thesis by auto
next
  case (render_fail u ev msg)
  with assms show ?thesis by auto
next
  case (render_clean u ev pptr)
  with assms show ?thesis by auto
next
  case (fallback_timeout u ev t v)
  with assms show ?thesis by auto
next
  case (fallback_fail u ev msg)
  with assms show ?thesis by auto
next
  case (fallback_clean u ev t viaProxy)
  with assms show ?thesis by auto
qed

lemma processOne_url_input:
  assumes "fst (processOne e inputUrl) = Inr r"
  shows "url_input r = inputUrl"
  using assms by (cases e inputUrl rule: processOne_cases) auto

text \<open>An exception leaves the pipeline in two ways only: the timer's, when the fallback
  fetch has not settled by the time the 60-second timer fires; and the conversion's, when
  an input that failed the format check cannot be turned into a string for the failure
  text. An input string never takes the second way.\<close>

lemma processOne_raises_two_ways:
  assumes "fst (processOne e inputUrl) = Inl x"
  shows "(x = JsError ''Error'' ''timeout''
          \<and> (\<exists>u t v. normalizeUrl e inputUrl = Some u
                 \<and> fst (scraperApiFetch e u) = Fulfills t v \<and> PER_URL_TIMEOUT_MS \<le> t))
       \<or> (normalizeUrl e inputUrl = None \<and> js_string e inputUrl = Inl x)"
  using assms by (cases e inputUrl rule: processOne_cases) auto

lemma processOne_string_raises_only_on_fallback_timeout:
  assumes "fst (processOne e (JStr s)) = Inl x"
  shows "x = JsError ''Error'' ''timeout''
       \<and> (\<exists>u t v. normalizeUrl e (JStr s) = Some u
              \<and> fst (scraperApiFetch e u) = Fulfills t v \<and> PER_URL_TIMEOUT_MS \<le> t)"
  using processOne_raises_two_ways [OF assms] by auto

text \<open>
  Claim C2 at a page that loads with an empty body and a harmless title: the run ends with
  status success and an empty scraped_text, with both failure fields empty as well.
\<close>

theorem processOne_empty_success:
  "processOne empty_page_env (JStr ''http://example.com'') =
     (Inr \<lparr>status = ''success'', url_input = JStr ''http://example.com'',
           failure_reason = [], failure_text = [], scraped_text = [], ms = 1600\<rparr>,
      [Net_apivoid ''example.com'', Call_puppeteerFetch ''http://example.com/''])"
proof -
  have norm: "normalizeUrl empty_page_env (JStr ''http://example.com'') = Some ''http://example.com/''"
    by (rule sample_normalizeUrl) (simp add: sample_defs)
  have host: "hostOnly empty_page_env ''http://example.com/'' = Some ''example.com''"
    by (rule sample_hostOnly) (simp add: sample_defs)
  have "apivoidCheck empty_page_env (Some ''example.com'') = (ApiOk, [Net_apivoid ''example.com''])"
    by (rule sample_reputation) (simp_all add: sample_defs)
  with host have rep: "apivoidCheck empty_page_env (hostOnly empty_page_env ''http://example.com/'')
      = (ApiOk, [Net_apivoid ''example.com''])"
    by simp
  have okp: "ok \<lparr>ok = True, reason = None, text' = None, httpStatus = Some 200,
        title = ''Home'', content = []\<rparr>"
    by simp
  have clean: "\<not> looksLikeCaptcha
     (content \<lparr>ok = True, reason = None, text' = None, httpStatus = Some 200,
        title = ''Home'', content = []\<rparr>)
     (title \<lparr>ok = True, reason = None, text' = None, httpStatus = Some 200,
        title = ''Home'', content = []\<rparr>)"
    using empty_clean by simp
  from processOne_render_clean [OF norm rep primary_case [OF empty_primary] okp clean]
  show ?thesis by (simp add: sample_defs)
qed

section \<open>The limiter keeps its invariant\<close>

lemma submitted_of_append: "submitted_of (xs @ ys) = submitted_of xs @ submitted_of ys"
  by (induction xs rule: submitted_of.induct) simp_all

lemma started_of_append: "started_of (xs @ ys) = started_of xs @ started_of ys"
  by (induction xs rule: started_of.induct) simp_all

lemma finished_of_append: "finished_of (xs @ ys) = finished_of xs @ finished_of ys"
  by (induction xs rule: finished_of.induct) simp_all

lemmas events_append = submitted_of_append started_of_append finished_of_append

lemma submitted_of_mem: "i \<in> set (submitted_of h) \<longleftrightarrow> Submitted i \<in> set h"
  by (induction h rule: submitted_of.induct) auto

lemma inv_new: "0 \<le> limit \<Longrightarrow> limiter_inv limit new_limiter"
  by (simp add: limiter_inv_def new_limiter_def)

lemma inv_submit:
  assumes "limiter_inv limit s" and "Submitted i \<notin> set (history s)"
  shows "limiter_inv limit (submit limit i s)"
proof -
  from assms(2) have "i \<notin> set (submitted_of (history s))" by (simp add: submitted_of_mem)
  with assms(1) show ?thesis
    by (auto simp add: limiter_inv_def submit_def run_def Let_def events_append)
qed

lemma settle_queue_empty:
  assumes "q s = []"
  shows "settle i s =
     s\<lparr>active := active s - 1, running := remove1 i (running s),
       history := history s @ [Finished i]\<rparr>"
  using assms by (simp add: settle_def next_run_def)

lemma settle_queue_head:
  assumes "q s = r # rest"
  shows "settle i s =
     s\<lparr>active := active s, running := remove1 i (running s) @ [r], q := rest,
       history := history s @ [Finished i, Started r]\<rparr>"
  using assms by (simp add: settle_def next_run_def run_def)

lemma inv_settle:
  assumes inv: "limiter_inv limit s" and i: "i \<in> set (running s)"
  shows "limiter_inv limit (settle i s)"
proof -
  from i have pos: "0 < length (running s)" by (cases "running s") auto
  from i have "length (remove1 i (running s)) = length (running s) - 1"
    by (simp add: length_remove1)
  with pos have len: "int (length (remove1 i (running s))) = int (length (running s)) - 1"
    by linarith
  from i have "mset (remove1 i (running s)) + {#i#} = mset (running s)" by simp
  moreover from inv have "mset (running s) + mset (finished_of (history s))
      = mset (started_of (history s))"
    by (simp add: limiter_inv_def)
  ultimately have ms: "mset (remove1 i (running s)) + mset (finished_of (history s)) + {#i#}
      = mset (started_of (history s))"
    by (metis add.assoc add.commute)
  from inv have act: "active s = int (length (running s))"
    and le: "int (length (running s)) \<le> limit"
    and full: "q s \<noteq> [] \<longrightarrow> int (length (running s)) = limit"
    and fifo: "started_of (history s) @ q s = submitted_of (history s)"
    and dist: "distinct (submitted_of (history s))"
    by (simp_all add: limiter_inv_def)
  show ?thesis
  proof (cases "q s")
    case Nil
    show ?thesis
      unfolding limiter_inv_def settle_queue_empty [OF Nil]
      using act le fifo dist len ms Nil
      by (simp add: events_append)
  next
    case (Cons r rest)
    with full have eq: "int (length (running s)) = limit" by simp
    show ?thesis
      unfolding limiter_inv_def settle_queue_head [OF Cons]
      using act eq fifo dist len ms Cons
      by (simp add: events_append)
  qed
qed

lemma reachable_inv:
  assumes "0 \<le> limit" and "reachable limit s"
  shows "limiter_inv limit s"
  using assms(2,1)
  by (induction rule: reachable.induct) (auto intro: inv_new inv_submit inv_settle)

section \<open>The batch: submission, settling, results\<close>

lemma submit_all_Suc: "submit_all (Suc n) = submit CONCURRENCY n (submit_all n)"
  by (simp add: submit_all_def)

lemma submit_submitted:
  "submitted_of (history (submit limit i s)) = submitted_of (history s) @ [i]"
  by (simp add: submit_def run_def Let_def events_append)

lemma settle_submitted: "submitted_of (history (settle i s)) = submitted_of (history s)"
  by (cases "q s") (simp_all add: settle_queue_empty settle_queue_head events_append)

lemma settle_finished:
  "finished_of (history (settle i s)) = finished_of (history s) @ [i]"
  by (cases "q s") (simp_all add: settle_queue_empty settle_queue_head events_append)

lemma submit_finished: "finished_of (history (submit limit i s)) = finished_of (history s)"
  by (simp add: submit_def run_def Let_def events_append)

lemma submit_all_submitted: "submitted_of (history (submit_all n)) = [0..<n]"
  by (induction n) (simp_all add: submit_all_Suc submit_submitted, simp add: submit_all_def new_limiter_def)

lemma submit_all_finished: "finished_of (history (submit_all n)) = []"
  by (induction n) (simp_all add: submit_all_Suc submit_finished, simp add: submit_all_def new_limiter_def)

lemma submit_all_reachable: "reachable CONCURRENCY (submit_all n)"
proof (induction n)
  case 0
  show ?case by (simp add: submit_all_def reach_new)
next
  case (Suc n)
  have "n \<notin> set (submitted_of (history (submit_all n)))"
    by (simp add: submit_all_submitted)
  then have "Submitted n \<notin> set (history (submit_all n))"
    by (simp add: submitted_of_mem)
  with Suc show ?case
    unfolding submit_all_Suc by (rule reach_submit)
qed

lemma pick_running: "running s \<noteq> [] \<Longrightarrow> running s ! (c mod length (running s)) \<in> set (running s)"
  by simp

lemma drain_states_reachable:
  assumes "reachable limit s"
  shows "\<forall>s' \<in> set (drain_states cs s). reachable limit s'"
  using assms
proof (induction cs arbitrary: s)
  case Nil
  then show ?case by simp
next
  case (Cons c cs)
  show ?case
  proof (cases "running s = []")
    case True
    with Cons.prems show ?thesis by simp
  next
    case False
    from Cons.prems pick_running [OF False] 
    have "reachable limit (settle (running s ! (c mod length (running s))) s)"
      by (rule reach_settle)
    from Cons.IH [OF this] Cons.prems False show ?thesis by simp
  qed
qed

lemma drain_states_nonempty: "drain_states cs s \<noteq> []"
  by (cases cs) auto

lemma drain_last: "drain cs s = last (drain_states cs s)"
  by (induction cs s rule: drain.induct) (auto simp add: drain_states_nonempty)

lemma drain_reachable: "reachable limit s \<Longrightarrow> reachable limit (drain cs s)"
  using drain_states_reachable [of limit s cs] drain_states_nonempty [of cs s]
  by (simp add: drain_last)

lemma drain_submitted: "submitted_of (history (drain cs s)) = submitted_of (history s)"
  by (induction cs s rule: drain.induct) (simp_all add: settle_submitted)

lemma CONCURRENCY_nonneg: "0 \<le> CONCURRENCY"
  by (simp add: CONCURRENCY_def)

text \<open>When nothing runs any more, nothing waits either, and every submitted task has
  finished.\<close>

lemma idle_all_finished:
  assumes "reachable CONCURRENCY s" and "running s = []"
  shows "set (finished_of (history s)) = set (submitted_of (history s))"
proof -
  from reachable_inv [OF CONCURRENCY_nonneg assms(1)]
  have inv: "limiter_inv CONCURRENCY s" .
  from inv assms(2) have "q s = []"
    by (auto simp add: limiter_inv_def CONCURRENCY_def)
  with inv assms(2) have "mset (finished_of (history s)) = mset (submitted_of (history s))"
    by (simp add: limiter_inv_def)
  then show ?thesis by (rule mset_eq_setD)
qed

lemma finished_sub:
  assumes "reachable CONCURRENCY s"
  shows "distinct (finished_of (history s))
       \<and> set (finished_of (history s)) \<subseteq> set (submitted_of (history s))"
proof -
  from reachable_inv [OF CONCURRENCY_nonneg assms]
  have inv: "limiter_inv CONCURRENCY s" .
  then have d: "distinct (started_of (history s) @ q s)"
    and m: "mset (running s) + mset (finished_of (history s)) = mset (started_of (history s))"
    and f: "started_of (history s) @ q s = submitted_of (history s)"
    by (simp_all add: limiter_inv_def)
  from m have m': "mset (running s @ finished_of (history s)) = mset (started_of (history s))"
    by simp
  from d have "distinct (started_of (history s))" by simp
  with mset_eq_imp_distinct_iff [OF m'] have "distinct (running s @ finished_of (history s))"
    by simp
  then have "distinct (finished_of (history s))" by simp
  moreover from mset_eq_setD [OF m']
  have "set (finished_of (history s)) \<subseteq> set (started_of (history s))"
    by auto
  moreover from f have "set (started_of (history s)) \<subseteq> set (submitted_of (history s))"
    by (metis set_append Un_upper1)
  ultimately show ?thesis by blast
qed

lemma drain_completes:
  assumes "reachable CONCURRENCY s"
      and "submitted_of (history s) = [0..<n]"
      and "n \<le> length cs + length (finished_of (history s))"
  shows "set (finished_of (history (drain cs s))) = {0..<n}"
  using assms
proof (induction cs arbitrary: s)
  case Nil
  from finished_sub [OF Nil.prems(1)] Nil.prems(2)
  have d: "distinct (finished_of (history s))" and sub: "set (finished_of (history s)) \<subseteq> {0..<n}"
    by simp_all
  from d have "card (set (finished_of (history s))) = length (finished_of (history s))"
    by (rule distinct_card)
  with Nil.prems(3) have "n \<le> card (set (finished_of (history s)))" by simp
  with sub have "set (finished_of (history s)) = {0..<n}"
    by (metis card_atLeastLessThan card_subset_eq diff_zero finite_atLeastLessThan
        card_mono le_antisym)
  then show ?case by simp
next
  case (Cons c cs)
  show ?case
  proof (cases "running s = []")
    case True
    from idle_all_finished [OF Cons.prems(1) True] Cons.prems(2) True
    show ?thesis by simp
  next
    case False
    let ?s = "settle (running s ! (c mod length (running s))) s"
    from Cons.prems(1) pick_running [OF False] have r: "reachable CONCURRENCY ?s"
      by (rule reach_settle)
    have s: "submitted_of (history ?s) = [0..<n]"
      using Cons.prems(2) by (simp add: settle_submitted)
    have l: "n \<le> length cs + length (finished_of (history ?s))"
      using Cons.prems(3) by (simp add: settle_finished)
    from Cons.IH [OF r s l] False show ?thesis by simp
  qed
qed

lemma batch_all_finished:
  assumes "n \<le> length cs"
  shows "set (finished_of (history (drain cs (submit_all n)))) = {0..<n}"
  by (rule drain_completes [OF submit_all_reachable submit_all_submitted]) (use assms in simp)


subsection \<open>Deduplication\<close>

lemma set_add_string:
  "set_add (map JStr acc) (JStr x) = (if x \<in> set acc then map JStr acc else map JStr (acc @ [x]))"
  by (induction acc) (auto simp add: set_add_def list_ex_iff)

lemma foldl_set_add_strings:
  "foldl set_add (map JStr acc) (map JStr xs)
     = map JStr (acc @ first_occurrences (filter (\<lambda>x. x \<notin> set acc) xs))"
proof (induction xs arbitrary: acc)
  case Nil
  show ?case by simp
next
  case (Cons x xs)
  show ?case
  proof (cases "x \<in> set acc")
    case True
    with Cons.IH [of acc] show ?thesis by (simp add: set_add_string)
  next
    case False
    have "filter (\<lambda>y. y \<notin> set (acc @ [x])) xs
            = filter (\<lambda>y. y \<noteq> x) (filter (\<lambda>y. y \<notin> set acc) xs)"
      by (induction xs) auto
    with Cons.IH [of "acc @ [x]"] False show ?thesis by (simp add: set_add_string)
  qed
qed

lemma js_unique_strings: "js_unique (map JStr xs) = map JStr (first_occurrences xs)"
  using foldl_set_add_strings [of "[]" xs] by (simp add: js_unique_def)

lemma first_occurrences_set: "set (first_occurrences xs) = set xs"
  by (induction xs rule: first_occurrences.induct) auto

lemma first_occurrences_distinct: "distinct (first_occurrences xs)"
  by (induction xs rule: first_occurrences.induct) (auto simp add: first_occurrences_set)


subsection \<open>The awaited results\<close>

lemma promise_all_fulfilled:
  assumes "promise_all outcome n settled = AllFulfilled rs"
  shows "rs = map (\<lambda>i. projr (outcome i)) [0..<n] \<and> (\<forall>i<n. \<not> isl (outcome i))"
proof -
  from assms have none: "find (\<lambda>i. isl (outcome i)) settled = None"
    and all: "list_all (\<lambda>i. i \<in> set settled) [0..<n]"
    and rs: "rs = map (\<lambda>i. projr (outcome i)) [0..<n]"
    by (auto simp add: promise_all_def split: option.splits if_splits)
  from none have "\<forall>i \<in> set settled. \<not> isl (outcome i)"
    by (simp add: find_None_iff)
  with all have "\<forall>i<n. \<not> isl (outcome i)"
    by (auto simp add: list_all_iff)
  with rs show ?thesis by simp
qed

lemma promise_all_complete:
  assumes "set settled = {0..<n}" and "\<forall>i<n. \<not> isl (outcome i)"
  shows "promise_all outcome n settled = AllFulfilled (map (\<lambda>i. projr (outcome i)) [0..<n])"
proof -
  from assms have "find (\<lambda>i. isl (outcome i)) settled = None"
    by (auto simp add: find_None_iff)
  moreover from assms(1) have "list_all (\<lambda>i. i \<in> set settled) [0..<n]"
    by (simp add: list_all_iff)
  ultimately show ?thesis by (simp add: promise_all_def)
qed

subsection \<open>The handler\<close>



lemma batch_scrape_results:
  assumes "urls_of body = Some list"
      and "fst (batch_scrape e body schedule) = Json200 rs"
  shows "map url_input rs = js_unique list
       \<and> rs = map (\<lambda>u. projr (fst (processOne e u))) (js_unique list)"
proof -
  let ?unique = "js_unique list"
  let ?n = "length ?unique"
  let ?out = "\<lambda>i. fst (processOne e (?unique ! i))"
  from assms have "promise_all ?out ?n
      (finished_of (history (drain schedule (submit_all ?n)))) = AllFulfilled rs"
    by (auto simp add: batch_scrape_def Let_def split: if_splits all_outcome.splits)
  from promise_all_fulfilled [OF this]
  have rs: "rs = map (\<lambda>i. projr (?out i)) [0..<?n]" and ok: "\<forall>i<?n. \<not> isl (?out i)"
    by simp_all
  have "url_input (projr (?out i)) = ?unique ! i" if "i < ?n" for i
  proof -
    from ok that obtain r where r: "?out i = Inr r" by (cases "?out i") auto
    from processOne_url_input [OF r] r show ?thesis by simp
  qed
  with rs have "map url_input rs = map (\<lambda>i. ?unique ! i) [0..<?n]" by simp
  then have "map url_input rs = ?unique" by (simp add: map_nth)
  moreover from rs have "rs = map (\<lambda>u. projr (fst (processOne e u))) ?unique"
    by (simp add: map_equality_iff)
  ultimately show ?thesis by simp
qed

lemma batch_scrape_answered_no_raise:
  assumes "urls_of body = Some list"
      and "fst (batch_scrape e body schedule) = Json200 rs"
  shows "\<forall>u \<in> set (js_unique list). \<not> isl (fst (processOne e u))"
proof -
  let ?unique = "js_unique list"
  let ?n = "length ?unique"
  let ?out = "\<lambda>i. fst (processOne e (?unique ! i))"
  from assms have "promise_all ?out ?n
      (finished_of (history (drain schedule (submit_all ?n)))) = AllFulfilled rs"
    by (auto simp add: batch_scrape_def Let_def split: if_splits all_outcome.splits)
  from promise_all_fulfilled [OF this] have "\<forall>i<?n. \<not> isl (?out i)" by simp
  then show ?thesis by (auto simp add: in_set_conv_nth)
qed

lemma batch_scrape_completes:
  assumes "urls_of body = Some list"
      and "length (js_unique list) \<le> MAX_URLS_PER_REQUEST"
      and "length (js_unique list) \<le> length schedule"
      and "\<forall>u \<in> set (js_unique list). \<not> isl (fst (processOne e u))"
  shows "fst (batch_scrape e body schedule)
           = Json200 (map (\<lambda>u. projr (fst (processOne e u))) (js_unique list))"
proof -
  let ?unique = "js_unique list"
  let ?n = "length ?unique"
  let ?out = "\<lambda>i. fst (processOne e (?unique ! i))"
  from assms(4) have "\<forall>i<?n. \<not> isl (?out i)" by simp
  from promise_all_complete [OF batch_all_finished [OF assms(3)] this]
  have "promise_all ?out ?n (finished_of (history (drain schedule (submit_all ?n))))
          = AllFulfilled (map (\<lambda>i. projr (?out i)) [0..<?n])" .
  moreover have "map (\<lambda>i. projr (?out i)) [0..<?n]
      = map (\<lambda>u. projr (fst (processOne e u))) ?unique"
    by (simp add: map_equality_iff)
  ultimately show ?thesis
    using assms(1,2) by (simp add: batch_scrape_def Let_def)
qed

section \<open>More sample runs, and small schedules\<close>

lemma sample_clean: "\<not> looksLikeCaptcha ''Example Domain'' ''Example''"
  by code_simp

lemma sample_primary:
  "hardCap (puppeteerFetch sample_env ''http://example.com/'') =
     Inr \<lparr>ok = True, reason = None, text' = None, httpStatus = Some 200,
        title = ''Example'', content = ''Example Domain''\<rparr>"
  by (simp add: hardCap_def puppeteerFetch_def withPage_def sample_defs
      PER_URL_TIMEOUT_MS_def TEXT_MAX_CHARS_def numeral_2_eq_2)

lemma sample_run:
  "processOne sample_env (JStr ''http://example.com'') =
     (Inr \<lparr>status = ''success'', url_input = JStr ''http://example.com'',
           failure_reason = [], failure_text = [], scraped_text = ''Example Domain'', ms = 1600\<rparr>,
      [Net_apivoid ''example.com'', Call_puppeteerFetch ''http://example.com/''])"
proof -
  have norm: "normalizeUrl sample_env (JStr ''http://example.com'') = Some ''http://example.com/''"
    by (rule sample_normalizeUrl) (simp add: sample_defs)
  have host: "hostOnly sample_env ''http://example.com/'' = Some ''example.com''"
    by (rule sample_hostOnly) (simp add: sample_defs)
  have "apivoidCheck sample_env (Some ''example.com'') = (ApiOk, [Net_apivoid ''example.com''])"
    by (rule sample_reputation) (simp_all add: sample_defs)
  with host have rep: "apivoidCheck sample_env (hostOnly sample_env ''http://example.com/'')
      = (ApiOk, [Net_apivoid ''example.com''])"
    by simp
  have okp: "ok \<lparr>ok = True, reason = None, text' = None, httpStatus = Some 200,
        title = ''Example'', content = ''Example Domain''\<rparr>"
    by simp
  have clean: "\<not> looksLikeCaptcha
     (content \<lparr>ok = True, reason = None, text' = None, httpStatus = Some 200,
        title = ''Example'', content = ''Example Domain''\<rparr>)
     (title \<lparr>ok = True, reason = None, text' = None, httpStatus = Some 200,
        title = ''Example'', content = ''Example Domain''\<rparr>)"
    using sample_clean by simp
  from processOne_render_clean [OF norm rep primary_case [OF sample_primary] okp clean]
  show ?thesis by (simp add: sample_defs)
qed

lemma sample_foobar_run:
  assumes "url_parse e = sample_parse" and "elapsed e = elapsed sample_env"
  shows "processOne e (JStr ''foobar'') =
     (Inr \<lparr>status = ''failure'', url_input = JStr ''foobar'', failure_reason = ''wrong_format'',
           failure_text = ''The input url `foobar` is not properly formatted.'',
           scraped_text = [], ms = 1600\<rparr>, [])"
proof -
  have c: "js_string e (JStr ''foobar'') = Inr ''foobar''" by simp
  from processOne_malformed [OF sample_foobar [OF assms(1)] c] assms(2)
  show ?thesis by (simp add: sample_defs)
qed



lemma submit_all_2:
  "submit_all 2 =
     \<lparr>active = 2, q = [], running = [0, 1],
      history = [Submitted 0, Started 0, Submitted 1, Started 1]\<rparr>"
  by (simp add: submit_all_def submit_def run_def new_limiter_def CONCURRENCY_def
      Let_def eval_nat_numeral upt_rec)


lemma drain_2_first:
  "finished_of (history (drain [0, 0] (submit_all (Suc (Suc 0))))) = [0, 1]"
  using submit_all_2 by (simp add: settle_queue_empty numeral_2_eq_2)

lemma drain_2_second:
  "finished_of (history (drain [Suc 0, 0] (submit_all (Suc (Suc 0))))) = [Suc 0, 0]"
  using submit_all_2 by (simp add: settle_queue_empty numeral_2_eq_2)

lemma submit_all_3:
  "submit_all 3 =
     \<lparr>active = 2, q = [2], running = [0, 1],
      history = [Submitted 0, Started 0, Submitted 1, Started 1, Submitted 2]\<rparr>"
  by (simp add: submit_all_def submit_def run_def new_limiter_def CONCURRENCY_def
      Let_def eval_nat_numeral upt_rec)

lemma repeated_urls:
  "urls_of repeated_body =
     Some (map JStr [''http://example.com'', ''foobar'', ''http://example.com'', ''http://example.com''])"
  by (simp add: urls_of_def repeated_body_def)

lemma repeated_first:
  "first_occurrences [''http://example.com'', ''foobar'', ''http://example.com'', ''http://example.com'']
     = [''http://example.com'', ''foobar'']"
  by simp



section \<open>The scheduler's claims\<close>

text \<open>
  Claim C8. In every state the limiter of a batch can reach, at most 2 pipeline runs are
  active, and the counter \<open>active\<close> is their number. Tasks wait only while 2 are active;
  the tasks started so far, followed by the waiting ones, are the submitted tasks in the
  order of submission, so the queue is first-in first-out. Submitting never starts a
  waiting task; when a running task settles while tasks wait, the head of the queue
  starts in that same step. Every state a batch goes through, while its tasks are
  submitted and while they settle in whatever order, is such a reachable state.
\<close>

theorem limiter_bound_and_fifo:
  "(reachable CONCURRENCY s \<longrightarrow>
      length (running s) \<le> 2
      \<and> active s = int (length (running s))
      \<and> (q s \<noteq> [] \<longrightarrow> length (running s) = 2)
      \<and> started_of (history s) @ q s = submitted_of (history s)
      \<and> set (q s) \<subseteq> set (q (submit CONCURRENCY i s))
      \<and> (\<forall>j r rest. j \<in> set (running s) \<and> q s = r # rest \<longrightarrow>
            history (settle j s) = history s @ [Finished j, Started r]
            \<and> q (settle j s) = rest
            \<and> running (settle j s) = remove1 j (running s) @ [r]))
   \<and> reachable CONCURRENCY (submit_all n)
   \<and> (\<forall>s' \<in> set (drain_states schedule (submit_all n)). reachable CONCURRENCY s')"
proof -
  have a: "length (running s) \<le> 2
      \<and> active s = int (length (running s))
      \<and> (q s \<noteq> [] \<longrightarrow> length (running s) = 2)
      \<and> started_of (history s) @ q s = submitted_of (history s)"
    if r: "reachable CONCURRENCY s"
  proof -
    from reachable_inv [OF CONCURRENCY_nonneg r]
    have "limiter_inv CONCURRENCY s" .
    then show ?thesis by (simp add: limiter_inv_def CONCURRENCY_def)
  qed
  have b: "set (q s) \<subseteq> set (q (submit CONCURRENCY i s))"
    by (auto simp add: submit_def run_def Let_def)
  have c: "\<forall>j r rest. j \<in> set (running s) \<and> q s = r # rest \<longrightarrow>
            history (settle j s) = history s @ [Finished j, Started r]
            \<and> q (settle j s) = rest
            \<and> running (settle j s) = remove1 j (running s) @ [r]"
    by (simp add: settle_queue_head)
  have d: "reachable CONCURRENCY (submit_all n)" by (rule submit_all_reachable)
  have e: "\<forall>s' \<in> set (drain_states schedule (submit_all n)). reachable CONCURRENCY s'"
    by (rule drain_states_reachable [OF submit_all_reachable])
  from a b c d e show ?thesis by blast
qed

theorem limiter_bound_and_fifo_witness:
  "reachable CONCURRENCY (submit_all 3)
   \<and> running (submit_all 3) = [0, 1] \<and> q (submit_all 3) = [2]
   \<and> length (running (submit_all 3)) \<le> 2
   \<and> history (settle 0 (submit_all 3)) = history (submit_all 3) @ [Finished 0, Started 2]
   \<and> running (settle 0 (submit_all 3)) = [1, 2]"
proof -
  have r: "reachable CONCURRENCY (submit_all 3)" by (rule submit_all_reachable)
  have m: "0 \<in> set (running (submit_all 3)) \<and> q (submit_all 3) = 2 # []"
    by (simp add: submit_all_3)
  from limiter_bound_and_fifo [of "submit_all 3" 0 3 "[]"] r m
  have "length (running (submit_all 3)) \<le> 2
      \<and> history (settle 0 (submit_all 3)) = history (submit_all 3) @ [Finished 0, Started 2]
      \<and> running (settle 0 (submit_all 3)) = remove1 0 (running (submit_all 3)) @ [2]"
    by blast
  with r show ?thesis by (simp add: submit_all_3)
qed


text \<open>
  For an accepted batch of strings, whenever the handler answers with results, their
  \<open>url_input\<close>s are the input strings, each once, in the order of first occurrence,
  whatever the order in which the tasks settled. And it does answer with as many results
  when the schedule lets every task settle and no pipeline raises.
\<close>

lemma batch_results_order_when_answered:
  assumes "urls_of body = Some (map JStr xs)"
  shows "(\<forall>rs. fst (batch_scrape e body schedule) = Json200 rs \<longrightarrow>
            map url_input rs = map JStr (first_occurrences xs))
       \<and> distinct (first_occurrences xs) \<and> set (first_occurrences xs) = set xs
       \<and> (length (first_occurrences xs) \<le> MAX_URLS_PER_REQUEST
            \<and> length (first_occurrences xs) \<le> length schedule
            \<and> (\<forall>x \<in> set xs. \<not> isl (fst (processOne e (JStr x))))
          \<longrightarrow> (\<exists>rs. fst (batch_scrape e body schedule) = Json200 rs
                   \<and> length rs = length (first_occurrences xs)))"
proof -
  have a: "map url_input rs = map JStr (first_occurrences xs)"
    if "fst (batch_scrape e body schedule) = Json200 rs" for rs
    using batch_scrape_results [OF assms that, THEN conjunct1] by (simp add: js_unique_strings)
  have b: "\<exists>rs. fst (batch_scrape e body schedule) = Json200 rs
                   \<and> length rs = length (first_occurrences xs)"
    if "length (first_occurrences xs) \<le> MAX_URLS_PER_REQUEST"
      and "length (first_occurrences xs) \<le> length schedule"
      and "\<forall>x \<in> set xs. \<not> isl (fst (processOne e (JStr x)))"
  proof -
    from that(3) have "\<forall>u \<in> set (js_unique (map JStr xs)). \<not> isl (fst (processOne e u))"
      by (simp add: js_unique_strings first_occurrences_set)
    from batch_scrape_completes [OF assms _ _ this] that(1,2)
    show ?thesis by (simp add: js_unique_strings)
  qed
  from a b show ?thesis
    by (simp add: first_occurrences_distinct first_occurrences_set)
qed

lemma repeated_batch_results:
  "(\<exists>rs. fst (batch_scrape sample_env repeated_body [0, 0]) = Json200 rs
         \<and> map url_input rs = [JStr ''http://example.com'', JStr ''foobar''])
   \<and> (\<exists>rs. fst (batch_scrape sample_env repeated_body [1, 0]) = Json200 rs
         \<and> map url_input rs = [JStr ''http://example.com'', JStr ''foobar''])"
proof -
  have cap: "length (first_occurrences [''http://example.com'', ''foobar'', ''http://example.com'',
      ''http://example.com'']) \<le> MAX_URLS_PER_REQUEST"
    by (simp add: MAX_URLS_PER_REQUEST_def)
  have ok: "\<forall>x \<in> set [''http://example.com'', ''foobar'', ''http://example.com'', ''http://example.com''].
      \<not> isl (fst (processOne sample_env (JStr x)))"
  proof -
    have "processOne sample_env (JStr ''foobar'') =
       (Inr \<lparr>status = ''failure'', url_input = JStr ''foobar'', failure_reason = ''wrong_format'',
           failure_text = ''The input url `foobar` is not properly formatted.'',
           scraped_text = [], ms = 1600\<rparr>, [])"
      by (rule sample_foobar_run) (simp_all add: sample_env_def)
    then show ?thesis by (simp add: sample_run)
  qed
  have "\<exists>rs. fst (batch_scrape sample_env repeated_body sch) = Json200 rs
         \<and> map url_input rs = [JStr ''http://example.com'', JStr ''foobar'']"
    if "length sch = 2" for sch
    using batch_results_order_when_answered [OF repeated_urls, of sample_env sch] cap ok that
    by (auto simp add: repeated_first simp del: first_occurrences.simps)
  from this [of "[0, 0]"] this [of "[1, 0]"] show ?thesis by simp
qed





text \<open>
  Claim C9 at an accepted batch of two different strings, one of them a URL whose fallback
  fetch settles only after the timer: in whatever order the tasks settle, the handler
  answers with no result sequence, so there is no entry for either string; when the slow
  task settles first the handler's promise rejects with the timer's exception.
\<close>

theorem accepted_batch_yields_no_results:
  "urls_of timeout_body = Some (map JStr [''foobar'', ''http://example.com''])
   \<and> length (js_unique (map JStr [''foobar'', ''http://example.com''])) \<le> MAX_URLS_PER_REQUEST
   \<and> fst (batch_scrape slow_proxy_env timeout_body schedule) \<noteq> Json200 rs
   \<and> fst (batch_scrape slow_proxy_env timeout_body [1, 0]) =
       HandlerRejects (JsError ''Error'' ''timeout'')"
proof -
  have u: "urls_of timeout_body = Some [JStr ''foobar'', JStr ''http://example.com'']"
    by (simp add: urls_of_def timeout_body_def)
  have q: "js_unique [JStr ''foobar'', JStr ''http://example.com'']
             = [JStr ''foobar'', JStr ''http://example.com'']"
    by (simp add: js_unique_def set_add_def)
  have f: "processOne slow_proxy_env (JStr ''foobar'') =
       (Inr \<lparr>status = ''failure'', url_input = JStr ''foobar'', failure_reason = ''wrong_format'',
           failure_text = ''The input url `foobar` is not properly formatted.'',
           scraped_text = [], ms = 1600\<rparr>, [])"
    by (rule sample_foobar_run) (simp_all add: sample_defs)
  have a: "fst (batch_scrape slow_proxy_env timeout_body schedule) \<noteq> Json200 rs"
  proof
    assume "fst (batch_scrape slow_proxy_env timeout_body schedule) = Json200 rs"
    from batch_scrape_answered_no_raise [OF u this]
    have "\<not> isl (fst (processOne slow_proxy_env (JStr ''http://example.com'')))"
      by (simp add: q)
    then show False by (simp add: slow_proxy_run)
  qed
  have b: "fst (batch_scrape slow_proxy_env timeout_body [1, 0]) =
       HandlerRejects (JsError ''Error'' ''timeout'')"
    unfolding batch_scrape_def u option.case Let_def q
    by (simp add: MAX_URLS_PER_REQUEST_def drain_2_second promise_all_def f slow_proxy_run
        del: drain.simps)
  from u q a b show ?thesis by (simp add: MAX_URLS_PER_REQUEST_def)
qed

text \<open>
  Claim C1 at a run whose primary render is flagged and whose fallback fetch is still
  unsettled when the 60-second timer fires: the timer's exception leaves \<open>processOne\<close>,
  and in a batch holding this URL beside a malformed one the awaited \<open>Promise.all\<close>
  rejects, so the handler sends no result set, the sibling's result included.
\<close>

theorem fallback_timeout_escapes:
  "processOne slow_proxy_env (JStr ''http://example.com'') =
     (Inl (JsError ''Error'' ''timeout''),
      [Net_apivoid ''example.com'', Call_puppeteerFetch ''http://example.com/'',
       Log_fallback ''http://example.com/'', Call_scraperApiFetch ''http://example.com/'',
       Net_scraperapi ''http://example.com/''])
   \<and> fst (batch_scrape slow_proxy_env timeout_body [0, 0]) =
       HandlerRejects (JsError ''Error'' ''timeout'')"
proof -
  have u: "urls_of timeout_body = Some [JStr ''foobar'', JStr ''http://example.com'']"
    by (simp add: urls_of_def timeout_body_def)
  have q: "js_unique [JStr ''foobar'', JStr ''http://example.com'']
             = [JStr ''foobar'', JStr ''http://example.com'']"
    by (simp add: js_unique_def set_add_def)
  have f: "processOne slow_proxy_env (JStr ''foobar'') =
       (Inr \<lparr>status = ''failure'', url_input = JStr ''foobar'', failure_reason = ''wrong_format'',
           failure_text = ''The input url `foobar` is not properly formatted.'',
           scraped_text = [], ms = 1600\<rparr>, [])"
    by (rule sample_foobar_run) (simp_all add: sample_defs)
  have "fst (batch_scrape slow_proxy_env timeout_body [0, 0]) =
       HandlerRejects (JsError ''Error'' ''timeout'')"
    unfolding batch_scrape_def u option.case Let_def q
    by (simp add: MAX_URLS_PER_REQUEST_def drain_2_first promise_all_def f slow_proxy_run
        del: drain.simps)
  with slow_proxy_run show ?thesis by simp
qed

end
